theory Spec2Isabelle
  imports Main "HOL-Library.Word" "HOL-Library.Log_Nat"
begin

unbundle bit_operations_syntax

section \<open>Ring clock: LED rings and clock face\<close>

text \<open>
  A shallow embedding of \<^verbatim>\<open>ledrings.cpp\<close> (class \<^verbatim>\<open>LEDRings\<close>) and of
  \<^verbatim>\<open>ringclockfunctions.ino\<close> (\<^verbatim>\<open>showHour\<close>, \<^verbatim>\<open>showMinutes\<close>).
  Unsigned C++ integers are words of their width, \<^verbatim>\<open>int\<close> expressions are mathematical
  integers where they cannot overflow and checked where they can, \<^verbatim>\<open>float\<close> values are the
  rationals they denote with every operation rounded as IEEE-754 does, and undefined
  behaviour is the result \<open>None\<close>.
\<close>

subsection \<open>Constants\<close>

text \<open>
  Modelled from the spec: \<^verbatim>\<open>constants.h\<close> is not among the sources; the spec gives the
  ring lengths, 91 pixels on the outer ring and 12 on the inner ring.
\<close>

definition OUTER_RING_LED_COUNT :: nat where
  "OUTER_RING_LED_COUNT = 91"

definition INNER_RING_LED_COUNT :: nat where
  "INNER_RING_LED_COUNT = 12"

text \<open>\<^verbatim>\<open>#define DEFAULT_CURRENT_LIMIT 9999\<close> (ledrings.h).\<close>

definition DEFAULT_CURRENT_LIMIT :: "16 word" where
  "DEFAULT_CURRENT_LIMIT = 9999"

text \<open>\<^verbatim>\<open>#define MILLIS_PER_MINUTE 60000\<close> (ringclockfunctions.ino).\<close>

definition MILLIS_PER_MINUTE :: int where
  "MILLIS_PER_MINUTE = 60000"

subsection \<open>Floating point\<close>

text \<open>
  A finite binary floating-point number is modelled by the rational it denotes. An
  arithmetic operation of the source is the exact operation on rationals followed by
  rounding to the format: to the nearest representable value, ties to the even
  significand. \<open>fround p emin\<close> rounds to the format with \<open>p\<close> significand bits and least
  normal exponent \<open>emin\<close> (below it the spacing stays that of the subnormals).
  Overflow to infinity is not modelled: a result beyond the largest finite value stays a
  large rational, and every such value of this program next meets a conversion to an
  integer type that cannot hold it.
\<close>

definition rne :: "rat \<Rightarrow> int" where
  "rne q = (let n = \<lfloor>q\<rfloor>; r = q - of_int n
            in if r < 1 / 2 then n else if 1 / 2 < r then n + 1
               else if even n then n else n + 1)"

text \<open>The exponent \<open>e\<close> with \<open>2 ^ e \<le> \<bar>x\<bar> < 2 ^ (e + 1)\<close>, for \<open>x \<noteq> 0\<close>.\<close>

definition binade :: "rat \<Rightarrow> int" where
  "binade x = (let (p, q) = quotient_of \<bar>x\<bar>; d = bitlen p - bitlen q
               in if 2 powi d \<le> \<bar>x\<bar> then d else d - 1)"

definition fround :: "nat \<Rightarrow> int \<Rightarrow> rat \<Rightarrow> rat" where
  "fround p emin x =
     (if x = 0 then 0
      else let e = max (binade x) emin - (int p - 1)
           in of_int (rne (x / 2 powi e)) * 2 powi e)"

text \<open>\<^verbatim>\<open>float\<close> is IEEE-754 binary32, \<^verbatim>\<open>double\<close> is binary64.\<close>

definition fl32 :: "rat \<Rightarrow> rat" where
  "fl32 = fround 24 (- 126)"

definition fl64 :: "rat \<Rightarrow> rat" where
  "fl64 = fround 53 (- 1022)"

text \<open>
  Conversion of a floating-point value to an integer type truncates towards zero; it is
  undefined when the truncated value does not fit the destination type.
\<close>

definition truncate_rat :: "rat \<Rightarrow> int" where
  "truncate_rat x = (if 0 \<le> x then \<lfloor>x\<rfloor> else \<lceil>x\<rceil>)"

definition float_to_uint8 :: "rat \<Rightarrow> 8 word option" where
  "float_to_uint8 x =
     (let t = truncate_rat x in if 0 \<le> t \<and> t \<le> 255 then Some (word_of_int t) else None)"

definition float_to_int :: "rat \<Rightarrow> int option" where
  "float_to_int x =
     (let t = truncate_rat x
      in if - 2147483648 \<le> t \<and> t \<le> 2147483647 then Some t else None)"

subsection \<open>Colours\<close>

text \<open>\<^verbatim>\<open>return ((uint32_t)r << 16) | ((uint32_t)g << 8) | b;\<close>\<close>

definition Color24bit :: "8 word \<Rightarrow> 8 word \<Rightarrow> 8 word \<Rightarrow> 32 word" where
  "Color24bit r g b = push_bit 16 (ucast r) OR push_bit 8 (ucast g) OR ucast b"

text \<open>
  One channel of \<^verbatim>\<open>interpolateColor24bit\<close>:
  \<^verbatim>\<open>uint8_t r = r1 + (r2 - r1) * factor;\<close>
  The difference is an \<^verbatim>\<open>int\<close>, converted to \<^verbatim>\<open>float\<close> for the product; the sum is a
  \<^verbatim>\<open>float\<close>, converted to \<^verbatim>\<open>uint8_t\<close> by the assignment.
\<close>

definition interpolateChannel :: "8 word \<Rightarrow> 8 word \<Rightarrow> rat \<Rightarrow> 8 word option" where
  "interpolateChannel c1 c2 factor =
     float_to_uint8 (fl32 (of_int (uint c1) + fl32 (of_int (uint c2 - uint c1) * factor)))"

definition interpolateColor24bit :: "32 word \<Rightarrow> 32 word \<Rightarrow> rat \<Rightarrow> 32 word option" where
  "interpolateColor24bit color1 color2 factor =
     (let r1 = (ucast (drop_bit 16 color1 AND 0xFF) :: 8 word);
          g1 = (ucast (drop_bit 8 color1 AND 0xFF) :: 8 word);
          b1 = (ucast (color1 AND 0xFF) :: 8 word);
          r2 = (ucast (drop_bit 16 color2 AND 0xFF) :: 8 word);
          g2 = (ucast (drop_bit 8 color2 AND 0xFF) :: 8 word);
          b2 = (ucast (color2 AND 0xFF) :: 8 word)
      in case interpolateChannel r1 r2 factor of None \<Rightarrow> None
         | Some r \<Rightarrow>
        (case interpolateChannel g1 g2 factor of None \<Rightarrow> None
         | Some g \<Rightarrow>
        (case interpolateChannel b1 b2 factor of None \<Rightarrow> None
         | Some b \<Rightarrow> Some (Color24bit r g b))))"

subsection \<open>The pixel driver\<close>

text \<open>
  The two \<^verbatim>\<open>Adafruit_NeoPixel\<close> objects are the hardware side. The model keeps what the
  program hands to each of them: the colour last passed to \<^verbatim>\<open>setPixelColor\<close> for every
  physical slot, the level last passed to \<^verbatim>\<open>setBrightness\<close>, and the number of
  \<^verbatim>\<open>show\<close> calls. \<^verbatim>\<open>setPixelColor\<close> takes the slot as a \<^verbatim>\<open>uint16_t\<close> and ignores a
  slot that is not below the strip's pixel count.
\<close>

record neopixel =
  np_pixels :: "nat \<Rightarrow> 32 word"
  np_brightness :: "8 word"
  np_shows :: nat

definition np_setPixelColor :: "nat \<Rightarrow> 16 word \<Rightarrow> 32 word \<Rightarrow> neopixel \<Rightarrow> neopixel" where
  "np_setPixelColor numLEDs n c np =
     (if unat n < numLEDs then np\<lparr>np_pixels := (np_pixels np)(unat n := c)\<rparr> else np)"

definition np_setBrightness :: "8 word \<Rightarrow> neopixel \<Rightarrow> neopixel" where
  "np_setBrightness b np = np\<lparr>np_brightness := b\<rparr>"

definition np_show :: "neopixel \<Rightarrow> neopixel" where
  "np_show np = np\<lparr>np_shows := Suc (np_shows np)\<rparr>"

subsection \<open>The class LEDRings\<close>

text \<open>
  The four colour buffers are arrays of fixed length; an array is a function from the
  index, of which the program reads and writes the indices below the ring's pixel count.
  The logger is the list of the strings logged so far.
\<close>

record LEDRings =
  outerRing :: neopixel
  innerRing :: neopixel
  logger :: "string list"
  currentLimit :: "16 word"
  brightnessOuterRing :: "8 word"
  brightnessInnerRing :: "8 word"
  offsetOuterRing :: "32 word"
  offsetInnerRing :: "32 word"
  targetOuterring :: "nat \<Rightarrow> 32 word"
  currentOuterRing :: "nat \<Rightarrow> 32 word"
  targetInnerRing :: "nat \<Rightarrow> 32 word"
  currentInnerRing :: "nat \<Rightarrow> 32 word"

definition logString :: "string \<Rightarrow> LEDRings \<Rightarrow> LEDRings" where
  "logString msg s = s\<lparr>logger := logger s @ [msg]\<rparr>"

text \<open>
  The constructor, on the global object \<^verbatim>\<open>ledrings\<close>: static storage is zeroed before
  the constructor runs, the arrays are initialised with \<^verbatim>\<open>{0}\<close>.
\<close>

definition LEDRings_new :: LEDRings where
  "LEDRings_new =
     \<lparr>outerRing = \<lparr>np_pixels = (\<lambda>_. 0), np_brightness = 0, np_shows = 0\<rparr>,
      innerRing = \<lparr>np_pixels = (\<lambda>_. 0), np_brightness = 0, np_shows = 0\<rparr>,
      logger = [],
      currentLimit = DEFAULT_CURRENT_LIMIT,
      brightnessOuterRing = 255,
      brightnessInnerRing = 255,
      offsetOuterRing = 0,
      offsetInnerRing = 0,
      targetOuterring = (\<lambda>_. 0),
      currentOuterRing = (\<lambda>_. 0),
      targetInnerRing = (\<lambda>_. 0),
      currentInnerRing = (\<lambda>_. 0)\<rparr>"

definition setOffsets :: "32 word \<Rightarrow> 32 word \<Rightarrow> LEDRings \<Rightarrow> LEDRings" where
  "setOffsets offOuter offInner s = s\<lparr>offsetOuterRing := offOuter, offsetInnerRing := offInner\<rparr>"

definition setBrightnessOuterRing :: "8 word \<Rightarrow> LEDRings \<Rightarrow> LEDRings" where
  "setBrightnessOuterRing b s =
     s\<lparr>brightnessOuterRing := b, outerRing := np_setBrightness b (outerRing s)\<rparr>"

definition setBrightnessInnerRing :: "8 word \<Rightarrow> LEDRings \<Rightarrow> LEDRings" where
  "setBrightnessInnerRing b s =
     s\<lparr>brightnessInnerRing := b, innerRing := np_setBrightness b (innerRing s)\<rparr>"

definition setCurrentLimit :: "16 word \<Rightarrow> LEDRings \<Rightarrow> LEDRings" where
  "setCurrentLimit limit s = s\<lparr>currentLimit := limit\<rparr>"

definition getBrightnessOuterRing :: "LEDRings \<Rightarrow> 8 word" where
  "getBrightnessOuterRing s = brightnessOuterRing s"

definition getBrightnessInnerRing :: "LEDRings \<Rightarrow> 8 word" where
  "getBrightnessInnerRing s = brightnessInnerRing s"

text \<open>A counting loop \<^verbatim>\<open>for(int i=0; i<n; i++)\<close> whose body cannot fail.\<close>

primrec for_loop :: "nat \<Rightarrow> (nat \<Rightarrow> 's \<Rightarrow> 's) \<Rightarrow> 's \<Rightarrow> 's" where
  "for_loop 0 body s = s"
| "for_loop (Suc n) body s = body n (for_loop n body s)"

text \<open>The same loop with a body that can be undefined: the loop stops there.\<close>

primrec for_loop_opt :: "nat \<Rightarrow> (nat \<Rightarrow> 's \<Rightarrow> 's option) \<Rightarrow> 's \<Rightarrow> 's option" where
  "for_loop_opt 0 body s = Some s"
| "for_loop_opt (Suc n) body s =
     (case for_loop_opt n body s of None \<Rightarrow> None | Some s' \<Rightarrow> body n s')"

definition flushOuterRing :: "LEDRings \<Rightarrow> LEDRings" where
  "flushOuterRing s =
     for_loop OUTER_RING_LED_COUNT
       (\<lambda>i s. s\<lparr>targetOuterring := (targetOuterring s)(i := 0)\<rparr>) s"

definition flushInnerRing :: "LEDRings \<Rightarrow> LEDRings" where
  "flushInnerRing s =
     for_loop INNER_RING_LED_COUNT
       (\<lambda>i s. s\<lparr>targetInnerRing := (targetInnerRing s)(i := 0)\<rparr>) s"

definition setPixelOuterRing :: "16 word \<Rightarrow> 32 word \<Rightarrow> LEDRings \<Rightarrow> LEDRings" where
  "setPixelOuterRing pixel color s =
     (if unat pixel \<ge> OUTER_RING_LED_COUNT then logString ''ERROR: pixel out of range'' s
      else s\<lparr>targetOuterring := (targetOuterring s)(unat pixel := color)\<rparr>)"

definition setPixelInnerRing :: "16 word \<Rightarrow> 32 word \<Rightarrow> LEDRings \<Rightarrow> LEDRings" where
  "setPixelInnerRing pixel color s =
     (if unat pixel \<ge> INNER_RING_LED_COUNT then logString ''ERROR: pixel out of range'' s
      else s\<lparr>targetInnerRing := (targetInnerRing s)(unat pixel := color)\<rparr>)"

text \<open>
  \<^verbatim>\<open>calcEstimatedLEDCurrent\<close>: the sum of the three products is an \<^verbatim>\<open>int\<close> (at most
  15300), stored in a \<^verbatim>\<open>uint32_t\<close>; the divisions and the product are unsigned 32-bit;
  the result is returned as \<^verbatim>\<open>uint16_t\<close>.
\<close>

definition calcEstimatedLEDCurrent :: "32 word \<Rightarrow> 8 word \<Rightarrow> 16 word" where
  "calcEstimatedLEDCurrent color bright =
     (let red = (ucast (drop_bit 16 color AND 0xFF) :: 8 word);
          green = (ucast (drop_bit 8 color AND 0xFF) :: 8 word);
          blue = (ucast (color AND 0xFF) :: 8 word);
          estimatedCurrent =
            (word_of_int (20 * uint red + 20 * uint green + 20 * uint blue) :: 32 word);
          estimatedCurrent = estimatedCurrent div 255;
          estimatedCurrent = (estimatedCurrent * ucast bright) div 255
      in ucast estimatedCurrent)"

text \<open>
  \<^verbatim>\<open>int correctedPixel = (COUNT + i + offset) % COUNT;\<close>
  The sum is a signed 32-bit sum, undefined on overflow; \<^verbatim>\<open>%\<close> truncates towards zero,
  so the remainder has the sign of the sum.
\<close>

definition c_rem :: "int \<Rightarrow> int \<Rightarrow> int" where
  "c_rem a b = sgn a * (\<bar>a\<bar> mod \<bar>b\<bar>)"

definition correctedPixel :: "nat \<Rightarrow> nat \<Rightarrow> 32 word \<Rightarrow> int option" where
  "correctedPixel count i offset =
     (let sum = int count + int i + sint offset
      in if sum > 2147483647 then None else Some (c_rem sum (int count)))"

text \<open>
  The body of the first loop of \<^verbatim>\<open>drawOnRings\<close>, on the object and the running
  \<^verbatim>\<open>totalCurrentOuterRing\<close>; the slot is converted to \<^verbatim>\<open>uint16_t\<close> by the call.
\<close>

definition drawOuterPixel ::
  "rat \<Rightarrow> nat \<Rightarrow> LEDRings \<times> 16 word \<Rightarrow> (LEDRings \<times> 16 word) option" where
  "drawOuterPixel factor i st =
     (let s = fst st; totalCurrentOuterRing = snd st;
          currentColor = currentOuterRing s i;
          targetColor = targetOuterring s i
      in case interpolateColor24bit currentColor targetColor factor of None \<Rightarrow> None
         | Some newColor \<Rightarrow>
        (case correctedPixel OUTER_RING_LED_COUNT i (offsetOuterRing s) of None \<Rightarrow> None
         | Some cp \<Rightarrow>
            Some (s\<lparr>outerRing :=
                       np_setPixelColor OUTER_RING_LED_COUNT (word_of_int cp) newColor
                         (outerRing s),
                     currentOuterRing := (currentOuterRing s)(i := newColor)\<rparr>,
                  totalCurrentOuterRing
                    + calcEstimatedLEDCurrent newColor (brightnessOuterRing s))))"

definition drawInnerPixel ::
  "rat \<Rightarrow> nat \<Rightarrow> LEDRings \<times> 16 word \<Rightarrow> (LEDRings \<times> 16 word) option" where
  "drawInnerPixel factor i st =
     (let s = fst st; totalCurrentInnerRing = snd st;
          currentColor = currentInnerRing s i;
          targetColor = targetInnerRing s i
      in case interpolateColor24bit currentColor targetColor factor of None \<Rightarrow> None
         | Some newColor \<Rightarrow>
        (case correctedPixel INNER_RING_LED_COUNT i (offsetInnerRing s) of None \<Rightarrow> None
         | Some cp \<Rightarrow>
            Some (s\<lparr>innerRing :=
                       np_setPixelColor INNER_RING_LED_COUNT (word_of_int cp) newColor
                         (innerRing s),
                     currentInnerRing := (currentInnerRing s)(i := newColor)\<rparr>,
                  totalCurrentInnerRing
                    + calcEstimatedLEDCurrent newColor (brightnessInnerRing s))))"

text \<open>
  The two loops of \<^verbatim>\<open>drawOnRings\<close>: the object after them, with
  \<^verbatim>\<open>totalCurrentOuterRing\<close> and \<^verbatim>\<open>totalCurrentInnerRing\<close>.
\<close>

definition drawPixels :: "rat \<Rightarrow> LEDRings \<Rightarrow> (LEDRings \<times> 16 word \<times> 16 word) option" where
  "drawPixels factor s =
     (case for_loop_opt OUTER_RING_LED_COUNT (drawOuterPixel factor) (s, 0) of None \<Rightarrow> None
      | Some st1 \<Rightarrow>
     (case for_loop_opt INNER_RING_LED_COUNT (drawInnerPixel factor) (fst st1, 0) of
        None \<Rightarrow> None
      | Some st2 \<Rightarrow> Some (fst st2, snd st1, snd st2)))"

text \<open>
  \<^verbatim>\<open>uint8_t newBrightnessOR = brightnessOuterRing * float(currentLimit)/float(totalCurrent);\<close>
  The product and the quotient are \<^verbatim>\<open>float\<close> operations, the assignment converts.
\<close>

definition reducedBrightness :: "8 word \<Rightarrow> 16 word \<Rightarrow> 16 word \<Rightarrow> 8 word option" where
  "reducedBrightness bright limit totalCurrent =
     float_to_uint8
       (fl32 (fl32 (of_int (uint bright) * of_int (uint limit)) / of_int (uint totalCurrent)))"

text \<open>
  \<^verbatim>\<open>drawOnRings\<close>. The two per-ring limits computed at its start are never read and are
  left out.
\<close>

definition drawOnRings :: "rat \<Rightarrow> LEDRings \<Rightarrow> LEDRings option" where
  "drawOnRings factor s =
     (case drawPixels factor s of None \<Rightarrow> None
      | Some (s', totalCurrentOuterRing, totalCurrentInnerRing) \<Rightarrow>
          let totalCurrent = totalCurrentOuterRing + totalCurrentInnerRing
          in if totalCurrent > currentLimit s' then
               (case reducedBrightness (brightnessOuterRing s') (currentLimit s') totalCurrent of
                  None \<Rightarrow> None
                | Some newBrightnessOR \<Rightarrow>
               (case reducedBrightness (brightnessInnerRing s') (currentLimit s') totalCurrent of
                  None \<Rightarrow> None
                | Some newBrightnessIR \<Rightarrow>
                    Some (s'\<lparr>outerRing := np_show (np_setBrightness newBrightnessOR (outerRing s')),
                             innerRing := np_show (np_setBrightness newBrightnessIR (innerRing s'))\<rparr>)))
             else
               Some (s'\<lparr>outerRing :=
                          np_show (np_setBrightness (brightnessOuterRing s') (outerRing s')),
                        innerRing :=
                          np_show (np_setBrightness (brightnessInnerRing s') (innerRing s'))\<rparr>))"

definition drawOnRingsInstant :: "LEDRings \<Rightarrow> LEDRings option" where
  "drawOnRingsInstant s = drawOnRings 1 s"


subsection \<open>The clock face\<close>

text \<open>
  \<^verbatim>\<open>showHour\<close>: \<^verbatim>\<open>hour\<close> is a \<^verbatim>\<open>uint8_t\<close>, \<^verbatim>\<open>hour-1\<close> an \<^verbatim>\<open>int\<close> that the call converts
  to the \<^verbatim>\<open>uint16_t\<close> pixel argument.
\<close>

definition showHour :: "8 word \<Rightarrow> 32 word \<Rightarrow> LEDRings \<Rightarrow> LEDRings" where
  "showHour hour color s =
     (let s1 = flushInnerRing s;
          hour' = (if hour > 12 then hour - 12 else hour)
      in setPixelInnerRing (word_of_int (uint hour' - 1)) color s1)"

text \<open>
  The state of the sketch that \<^verbatim>\<open>showMinutes\<close> works on: the global \<^verbatim>\<open>ledrings\<close> and the
  two static locals that outlive a call.
\<close>

record clock_state =
  ledrings :: LEDRings
  lastMinutes :: "8 word"
  timeOfLastMinuteChange :: "32 word"

text \<open>The local variables of \<^verbatim>\<open>showMinutes\<close> that the pixel loop reads.\<close>

record progress =
  activePixelSeconds :: int
  pixelProgressSeconds :: rat
  activePixelMinutes :: int
  pixelProgressMinutes :: rat

text \<open>
  The computation of these locals from \<^verbatim>\<open>minutes\<close> and \<^verbatim>\<open>timeSinceLastMinuteChange\<close>.
  \<^verbatim>\<open>60.0\<close> is a \<^verbatim>\<open>double\<close>, so that quotient is a \<^verbatim>\<open>double\<close> division whose result is
  rounded again by the assignment to a \<^verbatim>\<open>float\<close>.
\<close>

definition calcProgress :: "8 word \<Rightarrow> 32 word \<Rightarrow> progress option" where
  "calcProgress minutes timeSinceLastMinuteChange =
     (let progressSeconds =
            fl32 (fl32 (of_int (uint timeSinceLastMinuteChange)) / of_int MILLIS_PER_MINUTE);
          secondsPixels = fl32 (progressSeconds * of_nat OUTER_RING_LED_COUNT)
      in case float_to_int secondsPixels of None \<Rightarrow> None
         | Some aps \<Rightarrow>
          let pps = fl32 (secondsPixels - fl32 (of_int aps));
              minutesContinuous = fl32 (of_int (uint minutes) + progressSeconds);
              progressMinutes = fl32 (fl64 (minutesContinuous / 60));
              minutesPixels = fl32 (progressMinutes * of_nat OUTER_RING_LED_COUNT)
          in case float_to_int minutesPixels of None \<Rightarrow> None
             | Some apm \<Rightarrow>
                 Some \<lparr>activePixelSeconds = aps, pixelProgressSeconds = pps,
                       activePixelMinutes = apm,
                       pixelProgressMinutes = fl32 (minutesPixels - fl32 (of_int apm))\<rparr>)"

text \<open>The body of the pixel loop of \<^verbatim>\<open>showMinutes\<close>; \<^verbatim>\<open>black\<close> is \<^verbatim>\<open>Color24bit(0, 0, 0)\<close>.\<close>

definition showMinutesPixel ::
  "progress \<Rightarrow> 32 word \<Rightarrow> 32 word \<Rightarrow> nat \<Rightarrow> LEDRings \<Rightarrow> LEDRings option" where
  "showMinutesPixel p colorMinutes colorSeconds i s =
     (let black = Color24bit 0 0 0
      in if int i = activePixelSeconds p - 1 then
           (case interpolateColor24bit black colorSeconds (fl32 (1 - pixelProgressSeconds p)) of
              None \<Rightarrow> None
            | Some color \<Rightarrow> Some (setPixelOuterRing (word_of_nat i) color s))
         else if int i = activePixelSeconds p then
           (case interpolateColor24bit black colorSeconds (pixelProgressSeconds p) of
              None \<Rightarrow> None
            | Some color \<Rightarrow> Some (setPixelOuterRing (word_of_nat i) color s))
         else if int i < activePixelMinutes p then
           Some (setPixelOuterRing (word_of_nat i) colorMinutes s)
         else if int i = activePixelMinutes p then
           (case interpolateColor24bit black colorMinutes (pixelProgressMinutes p) of
              None \<Rightarrow> None
            | Some color \<Rightarrow> Some (setPixelOuterRing (word_of_nat i) color s))
         else Some (setPixelOuterRing (word_of_nat i) black s))"

text \<open>
  \<^verbatim>\<open>showMinutes\<close>. \<^verbatim>\<open>millis()\<close> is read twice, when the minute has changed and for the
  elapsed time; the two readings are the arguments \<open>now1\<close> and \<open>now2\<close>.
\<close>

definition showMinutes ::
  "8 word \<Rightarrow> 32 word \<Rightarrow> 32 word \<Rightarrow> 32 word \<Rightarrow> 32 word \<Rightarrow> clock_state \<Rightarrow> clock_state option" where
  "showMinutes minutes colorMinutes colorSeconds now1 now2 st =
     (let st1 = (if minutes \<noteq> lastMinutes st
                 then st\<lparr>timeOfLastMinuteChange := now1, lastMinutes := minutes\<rparr> else st);
          timeSinceLastMinuteChange = now2 - timeOfLastMinuteChange st1
      in case calcProgress minutes timeSinceLastMinuteChange of None \<Rightarrow> None
         | Some p \<Rightarrow>
        (case for_loop_opt OUTER_RING_LED_COUNT (showMinutesPixel p colorMinutes colorSeconds)
                (flushOuterRing (ledrings st1)) of
           None \<Rightarrow> None
         | Some s' \<Rightarrow> Some (st1\<lparr>ledrings := s'\<rparr>)))"

text \<open>The sketch at start-up: the fresh object, and the two statics zero.\<close>

definition clock_start :: clock_state where
  "clock_start = \<lparr>ledrings = LEDRings_new, lastMinutes = 0, timeOfLastMinuteChange = 0\<rparr>"

subsection \<open>Vocabulary of the statements\<close>

text \<open>
  The summed per-pixel current estimate over both rings, for the colours on display and
  the configured brightness of each ring.
\<close>

definition totalEstimate :: "LEDRings \<Rightarrow> nat" where
  "totalEstimate s =
     (\<Sum>i<OUTER_RING_LED_COUNT.
        unat (calcEstimatedLEDCurrent (currentOuterRing s i) (brightnessOuterRing s)))
     + (\<Sum>i<INNER_RING_LED_COUNT.
        unat (calcEstimatedLEDCurrent (currentInnerRing s i) (brightnessInnerRing s)))"






section \<open>Properties\<close>

subsection \<open>Colours and the current estimate\<close>

lemma ff_mask: "(0xFF :: 32 word) = mask 8"
  by (simp add: mask_eq_exp_minus_1)

lemma red_Color24bit: "(ucast (drop_bit 16 (Color24bit r g b) AND 0xFF) :: 8 word) = r"
  unfolding Color24bit_def ff_mask
  by (rule bit_word_eqI) (auto simp add: bit_simps dest: bit_imp_le_length)

lemma green_Color24bit: "(ucast (drop_bit 8 (Color24bit r g b) AND 0xFF) :: 8 word) = g"
  unfolding Color24bit_def ff_mask
  by (rule bit_word_eqI) (auto simp add: bit_simps dest: bit_imp_le_length)

lemma blue_Color24bit: "(ucast (Color24bit r g b AND 0xFF) :: 8 word) = b"
  unfolding Color24bit_def ff_mask
  by (rule bit_word_eqI) (auto simp add: bit_simps dest: bit_imp_le_length)

lemma unat_u8_le: "unat (x :: 8 word) \<le> 255"
  using unsigned_less [of x, where ?'a = nat] by simp

lemma current_of_channels:
  fixes R G Bl B :: "8 word"
  defines "e0 \<equiv> (word_of_int (20 * uint R + 20 * uint G + 20 * uint Bl) :: 32 word)"
  shows "unat (ucast ((e0 div 255 * ucast B) div 255) :: 16 word) =
     (20 * (unat R + unat G + unat Bl) div 255 * unat B) div 255"
proof -
  let ?s = "unat R + unat G + unat Bl"
  have bR: "unat R \<le> 255" and bG: "unat G \<le> 255" and bB: "unat Bl \<le> 255" and bBr: "unat B \<le> 255"
    by (rule unat_u8_le)+
  have s: "20 * ?s \<le> 15300" using bR bG bB by simp
  have "20 * uint R + 20 * uint G + 20 * uint Bl = int (20 * ?s)"
    by simp
  then have "e0 = of_nat (20 * ?s)"
    unfolding e0_def by (simp only: word_of_int_nat of_nat_eq_iff nat_int) 
  then have e0: "unat e0 = 20 * ?s"
    using s by (simp only: unat_of_nat) simp
  have e1: "unat (e0 div 255) = 20 * ?s div 255"
    by (simp add: unat_div e0)
  have e1b: "20 * ?s div 255 \<le> 60" using s by simp
  have ub: "unat (ucast B :: 32 word) = unat B"
    by (simp add: unsigned_ucast_eq take_bit_nat_eq_self_iff) (use bBr in simp)
  have le: "20 * ?s div 255 * unat B \<le> 60 * 255"
    using e1b bBr by (rule mult_le_mono)
  then have m: "unat (e0 div 255 * ucast B) = 20 * ?s div 255 * unat B"
    by (simp add: unat_mult_lem [THEN iffD1] e1 ub)
  have e2: "unat ((e0 div 255 * ucast B) div 255) = 20 * ?s div 255 * unat B div 255"
    by (simp add: unat_div m)
  have "20 * ?s div 255 * unat B div 255 \<le> 60"
    using le by simp
  then show ?thesis
    using e2 by (simp add: unsigned_ucast_eq take_bit_nat_eq_self_iff)
qed

lemma calcEstimatedLEDCurrent_unat:
  "unat (calcEstimatedLEDCurrent color B) =
     20 * (unat (ucast (drop_bit 16 color AND 0xFF) :: 8 word)
          + unat (ucast (drop_bit 8 color AND 0xFF) :: 8 word)
          + unat (ucast (color AND 0xFF) :: 8 word)) div 255 * unat B div 255"
  unfolding calcEstimatedLEDCurrent_def Let_def by (rule current_of_channels)

text \<open>
  C2: for all channels \<open>r\<close>, \<open>g\<close>, \<open>b\<close> and every brightness \<open>B\<close> (all 8-bit), the current
  estimated for the packed colour is \<open>((20 * (r + g + b)) / 255 * B) / 255\<close> with truncating
  integer division at both steps.
\<close>

theorem calcEstimatedLEDCurrent_formula:
  "unat (calcEstimatedLEDCurrent (Color24bit r g b) B) =
     20 * (unat r + unat g + unat b) div 255 * unat B div 255"
  by (simp only: calcEstimatedLEDCurrent_unat red_Color24bit green_Color24bit blue_Color24bit)

lemma calcEstimatedLEDCurrent_le: "unat (calcEstimatedLEDCurrent color B) \<le> 60"
proof -
  let ?r = "unat (ucast (drop_bit 16 color AND 0xFF) :: 8 word)"
  let ?g = "unat (ucast (drop_bit 8 color AND 0xFF) :: 8 word)"
  let ?b = "unat (ucast (color AND 0xFF) :: 8 word)"
  have "?r \<le> 255" "?g \<le> 255" "?b \<le> 255" "unat B \<le> 255" by (rule unat_u8_le)+
  then have "20 * (?r + ?g + ?b) div 255 \<le> 60" "unat B \<le> 255" by simp_all
  then have "20 * (?r + ?g + ?b) div 255 * unat B \<le> 60 * 255" by (rule mult_le_mono)
  then have "20 * (?r + ?g + ?b) div 255 * unat B div 255 \<le> 60" by simp
  then show ?thesis by (simp only: calcEstimatedLEDCurrent_unat)
qed

subsection \<open>Flushing, pixel writes and the hour face\<close>

lemma flushInner_loop:
  "for_loop n (\<lambda>i s. s\<lparr>targetInnerRing := (targetInnerRing s)(i := 0)\<rparr>) s =
     s\<lparr>targetInnerRing := (\<lambda>i. if i < n then 0 else targetInnerRing s i)\<rparr>"
  by (induction n) (auto simp add: fun_eq_iff)

lemma flushOuter_loop:
  "for_loop n (\<lambda>i s. s\<lparr>targetOuterring := (targetOuterring s)(i := 0)\<rparr>) s =
     s\<lparr>targetOuterring := (\<lambda>i. if i < n then 0 else targetOuterring s i)\<rparr>"
  by (induction n) (auto simp add: fun_eq_iff)

lemma flushInnerRing_eq:
  "flushInnerRing s = s\<lparr>targetInnerRing := (\<lambda>i. if i < 12 then 0 else targetInnerRing s i)\<rparr>"
  by (simp add: flushInnerRing_def flushInner_loop INNER_RING_LED_COUNT_def)

lemma flushOuterRing_eq:
  "flushOuterRing s = s\<lparr>targetOuterring := (\<lambda>i. if i < 91 then 0 else targetOuterring s i)\<rparr>"
  by (simp add: flushOuterRing_def flushOuter_loop OUTER_RING_LED_COUNT_def)

text \<open>
  C8: a pixel index at or beyond the ring length (91 outer, 12 inner) leaves the whole
  target buffer as it was and appends the error message to the log; an index in range
  writes the colour at that index, changes no other entry and logs nothing.
\<close>

theorem setPixel_range_check:
  "targetOuterring (setPixelOuterRing pixel color s) =
     (if unat pixel \<ge> 91 then targetOuterring s else (targetOuterring s)(unat pixel := color))
   \<and> logger (setPixelOuterRing pixel color s) =
     (if unat pixel \<ge> 91 then logger s @ [''ERROR: pixel out of range''] else logger s)
   \<and> targetInnerRing (setPixelInnerRing pixel color s) =
     (if unat pixel \<ge> 12 then targetInnerRing s else (targetInnerRing s)(unat pixel := color))
   \<and> logger (setPixelInnerRing pixel color s) =
     (if unat pixel \<ge> 12 then logger s @ [''ERROR: pixel out of range''] else logger s)"
  by (simp add: setPixelOuterRing_def setPixelInnerRing_def logString_def
      OUTER_RING_LED_COUNT_def INNER_RING_LED_COUNT_def)


lemma showHour_unfold:
  "showHour hour color s =
     setPixelInnerRing (word_of_int (uint (if hour > 12 then hour - 12 else hour) - 1)) color
       (flushInnerRing s)"
  by (simp add: showHour_def Let_def)

lemma setPixelInner_flushed:
  "targetInnerRing (setPixelInnerRing p color (flushInnerRing s)) =
     (if unat p \<ge> 12 then (\<lambda>i. if i < 12 then 0 else targetInnerRing s i)
      else (\<lambda>i. if i = unat p then color else if i < 12 then 0 else targetInnerRing s i))"
  by (auto simp add: setPixelInnerRing_def flushInnerRing_eq logString_def
      INNER_RING_LED_COUNT_def fun_eq_iff)

lemma setPixelInner_flushed_log:
  "logger (setPixelInnerRing p color (flushInnerRing s)) =
     (if unat p \<ge> 12 then logger s @ [''ERROR: pixel out of range''] else logger s)"
  by (simp add: setPixelInnerRing_def flushInnerRing_eq logString_def INNER_RING_LED_COUNT_def)

lemma minus_one_u16: "(word_of_int (uint (0 :: 8 word) - 1) :: 16 word) = 65535"
  by simp

text \<open>
  C9: for hour 0 the index \<open>hour - 1\<close> becomes 65535 as the 16-bit pixel argument, the
  range check rejects it (and logs the error), nothing outside the twelve entries is
  written, and the inner target buffer is black.
\<close>

theorem showHour_zero:
  "(word_of_int (uint (0 :: 8 word) - 1) :: 16 word) = 65535
   \<and> targetInnerRing (showHour 0 color s) = (\<lambda>i. if i < 12 then 0 else targetInnerRing s i)
   \<and> logger (showHour 0 color s) = logger s @ [''ERROR: pixel out of range'']"
proof -
  have "\<not> (0 :: 8 word) > 12" by simp
  then have "showHour 0 color s =
      setPixelInnerRing (word_of_int (uint (0 :: 8 word) - 1)) color (flushInnerRing s)"
    by (simp only: showHour_unfold if_False)
  then have "showHour 0 color s = setPixelInnerRing 65535 color (flushInnerRing s)"
    by (simp only: minus_one_u16)
  then show ?thesis
    by (simp add: setPixelInner_flushed setPixelInner_flushed_log)
qed

lemma hour_index:
  fixes h :: "8 word"
  assumes "1 \<le> unat h" "unat h \<le> 12"
  shows "unat (word_of_int (uint h - 1) :: 16 word) = unat h - 1"
proof -
  have "uint h - 1 = int (unat h - 1)" using assms by (simp add: of_nat_diff)
  then have "(word_of_int (uint h - 1) :: 16 word) = of_nat (unat h - 1)"
    by (simp only: word_of_int_nat of_nat_0_le_iff nat_int)
  then show ?thesis using assms by (simp only: unat_of_nat) simp
qed

text \<open>
  C6: for an hour \<open>h\<close> from 1 to 12, after \<open>showHour\<close> the inner target buffer is black
  except at index \<open>h - 1\<close>, which holds the colour; for \<open>h\<close> from 13 to 24 the index is
  that of \<open>h - 12\<close>, namely \<open>h - 13\<close>.
\<close>

theorem showHour_lights_one:
  assumes "1 \<le> unat h" "unat h \<le> 24" "i < 12"
  shows "targetInnerRing (showHour h color s) i =
     (if i = (if unat h \<le> 12 then unat h - 1 else unat h - 13) then color else 0)"
proof (cases "unat h \<le> 12")
  case True
  then have "\<not> h > 12" by (simp add: word_less_nat_alt)
  then have sh: "showHour h color s =
      setPixelInnerRing (word_of_int (uint h - 1)) color (flushInnerRing s)"
    by (simp only: showHour_unfold if_False)
  have "unat (word_of_int (uint h - 1) :: 16 word) = unat h - 1"
    using assms(1) True by (rule hour_index)
  with True assms show ?thesis
    by (simp only: sh setPixelInner_flushed) simp
next
  case False
  then have gt: "h > 12" by (simp add: word_less_nat_alt)
  then have sh: "showHour h color s =
      setPixelInnerRing (word_of_int (uint (h - 12) - 1)) color (flushInnerRing s)"
    by (simp only: showHour_unfold if_True)
  from gt have "12 \<le> h" by simp
  then have u: "unat (h - 12) = unat h - 12" by (simp add: unat_sub)
  with False assms have "1 \<le> unat (h - 12)" "unat (h - 12) \<le> 12" by simp_all
  then have "unat (word_of_int (uint (h - 12) - 1) :: 16 word) = unat (h - 12) - 1"
    by (rule hour_index)
  with False u assms show ?thesis
    by (simp only: sh setPixelInner_flushed) simp
qed

theorem showHour_lights_one_witness:
  "1 \<le> unat (15 :: 8 word) \<and> unat (15 :: 8 word) \<le> 24 \<and> (2::nat) < 12
   \<and> targetInnerRing (showHour 15 (Color24bit 200 200 0) LEDRings_new) 2 = Color24bit 200 200 0"
  using showHour_lights_one [of 15 2 "Color24bit 200 200 0" LEDRings_new] by simp

subsection \<open>Rounding to a floating-point format\<close>

lemma two_powi_less_iff: "(2::rat) powi a < 2 powi b \<longleftrightarrow> a < b"
proof
  assume "(2::rat) powi a < 2 powi b"
  show "a < b"
  proof (rule ccontr)
    assume "\<not> a < b"
    then have "b \<le> a" by simp
    then have "(2::rat) powi b \<le> 2 powi a" by (rule power_int_increasing) simp
    with \<open>(2::rat) powi a < 2 powi b\<close> show False by simp
  qed
next
  assume "a < b"
  then show "(2::rat) powi a < 2 powi b" by (rule power_int_strict_increasing) simp
qed

lemma binade_upper:
  assumes "x \<noteq> 0" "\<bar>x\<bar> < 2 powi (b + 1)"
  shows "binade x \<le> b"
proof -
  obtain p q where pq: "quotient_of \<bar>x\<bar> = (p, q)" by force
  have q: "0 < q" using pq by (rule quotient_of_denom_pos)
  have ax: "\<bar>x\<bar> = of_int p / of_int q" using pq by (rule quotient_of_div)
  have "0 < \<bar>x\<bar>" using assms(1) by simp
  then have p: "0 < p" using q unfolding ax by (simp add: zero_less_divide_iff)
  let ?d = "bitlen p - bitlen q"
  show ?thesis
  proof (cases "2 powi ?d \<le> \<bar>x\<bar>")
    case True
    then have "binade x = ?d" by (simp add: binade_def pq Let_def)
    moreover from True assms(2) have "(2::rat) powi ?d < 2 powi (b + 1)" by simp
    then have "?d < b + 1" by (simp only: two_powi_less_iff)
    ultimately show ?thesis by simp
  next
    case False
    then have bd: "binade x = ?d - 1" by (simp add: binade_def pq Let_def)
    have bp: "1 \<le> bitlen p" using p by (simp add: bitlen_def floorlog_def)
    have bq: "1 \<le> bitlen q" using q by (simp add: bitlen_def floorlog_def)
    have lo: "2 ^ nat (bitlen p - 1) \<le> p" using bitlen_bounds [OF p] by simp
    have hi: "q < 2 ^ nat (bitlen q)" using bitlen_bounds [OF q] by simp
    have dd: "?d - 1 = bitlen p - 1 - bitlen q" by simp
    have "(2::rat) powi (bitlen p - 1 - bitlen q) = 2 powi (bitlen p - 1) / 2 powi (bitlen q)"
      by (rule power_int_diff) simp
    then have "(2::rat) powi (?d - 1) = 2 powi (bitlen p - 1) / 2 powi (bitlen q)"
      by (simp only: dd)
    also have "\<dots> = 2 ^ nat (bitlen p - 1) / 2 ^ nat (bitlen q)"
      using bp bq by (simp add: power_int_nonneg_exp)
    also have "\<dots> \<le> of_int p / 2 ^ nat (bitlen q)"
    proof -
      have "(of_int (2 ^ nat (bitlen p - 1)) :: rat) \<le> of_int p"
        using lo by (simp only: of_int_le_iff)
      then show ?thesis by (simp add: divide_right_mono)
    qed
    also have "\<dots> \<le> of_int p / of_int q"
    proof -
      have "(of_int q :: rat) \<le> of_int (2 ^ nat (bitlen q))"
        using hi by (simp only: of_int_le_iff less_imp_le)
      then show ?thesis using p q by (simp add: frac_le)
    qed
    finally have "(2::rat) powi (?d - 1) \<le> \<bar>x\<bar>" by (simp only: ax)
    with assms(2) have "(2::rat) powi (?d - 1) < 2 powi (b + 1)" by simp
    then have "?d - 1 < b + 1" by (simp only: two_powi_less_iff)
    with bd show ?thesis by simp
  qed
qed

lemma rne_le: "q \<le> of_int m \<Longrightarrow> rne q \<le> m"
proof -
  assume a: "q \<le> of_int m"
  have fl: "\<lfloor>q\<rfloor> \<le> m" using a by (simp add: floor_le_iff) 
  show ?thesis
  proof (cases "q = of_int \<lfloor>q\<rfloor>")
    case True
    then have "q - of_int \<lfloor>q\<rfloor> = 0" by simp
    then show ?thesis using fl by (simp add: rne_def Let_def)
  next
    case False
    then have "of_int \<lfloor>q\<rfloor> < q" using of_int_floor_le [of q] by (auto simp add: less_le)
    with a have "(of_int \<lfloor>q\<rfloor> :: rat) < of_int m" by simp
    then have "\<lfloor>q\<rfloor> < m" by (simp only: of_int_less_iff)
    then show ?thesis by (simp add: rne_def Let_def)
  qed
qed

lemma rne_ge: "of_int m \<le> q \<Longrightarrow> m \<le> rne q"
proof -
  assume "of_int m \<le> q"
  then have "m \<le> \<lfloor>q\<rfloor>" by (simp add: le_floor_iff)
  then show ?thesis by (simp add: rne_def Let_def)
qed

lemma rne_upper: "of_int (rne q) \<le> q + 1 / 2"
proof -
  show ?thesis
  proof (cases "q - of_int \<lfloor>q\<rfloor> < 1 / 2")
    case True
    then have "rne q = \<lfloor>q\<rfloor>" by (simp add: rne_def Let_def)
    then show ?thesis using of_int_floor_le [of q] by linarith
  next
    case False
    then have "rne q \<le> \<lfloor>q\<rfloor> + 1" by (simp add: rne_def Let_def)
    then have "(of_int (rne q) :: rat) \<le> of_int (\<lfloor>q\<rfloor> + 1)" by (simp only: of_int_le_iff)
    with False show ?thesis by simp
  qed
qed

text \<open>Below \<open>2 ^ p\<close> the spacing is a negative power of two.\<close>

lemma fround_scaled:
  assumes "x \<noteq> 0" "\<bar>x\<bar> < 2 powi (b + 1)" "emin \<le> b" "b \<le> int p - 1"
  shows "\<exists>k. int p - 1 - b \<le> int k \<and> fround p emin x = of_int (rne (x * 2 ^ k)) / 2 ^ k"
proof -
  let ?e = "max (binade x) emin - (int p - 1)"
  have "binade x \<le> b" using assms(1,2) by (rule binade_upper)
  then have e: "?e \<le> b - (int p - 1)" using assms(3) by simp
  then have e0: "?e \<le> 0" using assms(4) by simp
  define k where "k = nat (- ?e)"
  have ke: "?e = - int k" using e0 by (simp add: k_def)
  have pw: "(2::rat) powi ?e = 1 / 2 ^ k"
    by (simp only: ke power_int_minus_divide power_int_of_nat)
  have "fround p emin x = of_int (rne (x / 2 powi ?e)) * 2 powi ?e"
    using assms(1) by (simp add: fround_def Let_def)
  then have "fround p emin x = of_int (rne (x * 2 ^ k)) / 2 ^ k"
    by (simp only: pw) simp
  moreover have "int p - 1 - b \<le> int k" using e ke by simp
  ultimately show ?thesis by blast
qed

lemma fround_le_int:
  assumes "\<bar>x\<bar> < 2 ^ p" "emin \<le> int p - 1" "x \<le> of_int n"
  shows "fround p emin x \<le> of_int n"
proof (cases "x = 0")
  case True
  with assms(3) show ?thesis by (simp add: fround_def)
next
  case False
  have "\<bar>x\<bar> < 2 powi (int p - 1 + 1)" using assms(1) by simp
  with False obtain k where k: "fround p emin x = of_int (rne (x * 2 ^ k)) / 2 ^ k"
    using fround_scaled [of x "int p - 1" emin p] assms(2) by auto
  have "x * 2 ^ k \<le> of_int n * 2 ^ k" using assms(3) by simp
  then have "x * 2 ^ k \<le> of_int (n * 2 ^ k)" by simp
  then have "rne (x * 2 ^ k) \<le> n * 2 ^ k" by (rule rne_le)
  then have "(of_int (rne (x * 2 ^ k)) :: rat) \<le> of_int (n * 2 ^ k)" by (simp only: of_int_le_iff)
  then have "(of_int (rne (x * 2 ^ k)) :: rat) / 2 ^ k \<le> of_int n"
    by (simp add: divide_le_eq)
  then show ?thesis by (simp only: k)
qed

lemma fround_ge_int:
  assumes "\<bar>x\<bar> < 2 ^ p" "emin \<le> int p - 1" "of_int n \<le> x"
  shows "of_int n \<le> fround p emin x"
proof (cases "x = 0")
  case True
  with assms(3) show ?thesis by (simp add: fround_def)
next
  case False
  have "\<bar>x\<bar> < 2 powi (int p - 1 + 1)" using assms(1) by simp
  with False obtain k where k: "fround p emin x = of_int (rne (x * 2 ^ k)) / 2 ^ k"
    using fround_scaled [of x "int p - 1" emin p] assms(2) by auto
  have "of_int n * 2 ^ k \<le> x * 2 ^ k" using assms(3) by simp
  then have "of_int (n * 2 ^ k) \<le> x * 2 ^ k" by simp
  then have "n * 2 ^ k \<le> rne (x * 2 ^ k)" by (rule rne_ge)
  then have "(of_int (n * 2 ^ k) :: rat) \<le> of_int (rne (x * 2 ^ k))" by (simp only: of_int_le_iff)
  then have "of_int n \<le> (of_int (rne (x * 2 ^ k)) :: rat) / 2 ^ k"
    by (simp add: le_divide_eq)
  then show ?thesis by (simp only: k)
qed

lemma fl32_le_int: "\<bar>x\<bar> < 16777216 \<Longrightarrow> x \<le> of_int n \<Longrightarrow> fl32 x \<le> of_int n"
  unfolding fl32_def using fround_le_int [of x 24 "- 126" n] by simp

lemma fl32_ge_int: "\<bar>x\<bar> < 16777216 \<Longrightarrow> of_int n \<le> x \<Longrightarrow> of_int n \<le> fl32 x"
  unfolding fl32_def using fround_ge_int [of x 24 "- 126" n] by simp

lemma fl32_of_int: "\<bar>n\<bar> < 16777216 \<Longrightarrow> fl32 (of_int n) = of_int n"
proof -
  assume "\<bar>n\<bar> < 16777216"
  then have "\<bar>of_int n :: rat\<bar> < 16777216"
    by (metis of_int_abs of_int_less_iff of_int_numeral)
  then have "fl32 (of_int n) \<le> of_int n" "of_int n \<le> fl32 (of_int n)"
    by (simp_all add: fl32_le_int fl32_ge_int)
  then show ?thesis by simp
qed

subsection \<open>Blending one channel\<close>

lemma uint_u8_le: "uint (x :: 8 word) \<le> 255"
  using uint_bounded [of x] by simp

lemma truncate_rat_nonneg: "0 \<le> x \<Longrightarrow> truncate_rat x = \<lfloor>x\<rfloor>"
  by (simp add: truncate_rat_def)

lemma float_to_uint8_between:
  assumes "of_int lo \<le> x" "x \<le> of_int hi" "0 \<le> lo" "hi \<le> 255"
  shows "\<exists>w. float_to_uint8 x = Some w \<and> lo \<le> uint w \<and> uint w \<le> hi"
proof -
  have "(0::rat) \<le> of_int lo" using assms(3) by simp
  then have x0: "0 \<le> x" using assms(1) by (rule order_trans)
  have t: "truncate_rat x = \<lfloor>x\<rfloor>" using x0 by (rule truncate_rat_nonneg)
  have l: "lo \<le> \<lfloor>x\<rfloor>" using assms(1) by (simp add: le_floor_iff)
  have h: "\<lfloor>x\<rfloor> \<le> hi" using assms(2) by (simp add: floor_le_iff)
  have r0: "0 \<le> \<lfloor>x\<rfloor>" using l assms(3) by linarith
  have r1: "\<lfloor>x\<rfloor> \<le> 255" using h assms(4) by linarith
  have "take_bit 8 \<lfloor>x\<rfloor> = \<lfloor>x\<rfloor>"
    using r0 r1 by (intro take_bit_int_eq_self) simp_all
  then have u: "uint (word_of_int \<lfloor>x\<rfloor> :: 8 word) = \<lfloor>x\<rfloor>"
    by (simp only: uint_word_of_int_eq) simp
  have "float_to_uint8 x = Some (word_of_int \<lfloor>x\<rfloor>)"
    unfolding float_to_uint8_def t Let_def using r0 r1 by (simp only: simp_thms if_True)
  with u l h show ?thesis by simp
qed

text \<open>
  The expression \<open>a + (b - a) * f\<close> in \<open>float\<close> arithmetic, converted to \<open>uint8_t\<close>, for a
  factor between 0 and 1: defined, and between the two ends.
\<close>

lemma lerp_up:
  fixes a b l :: int
  assumes "0 \<le> f" "f \<le> 1" "0 \<le> a" "a \<le> b" "b \<le> 255"
    and "0 \<le> l" "of_int l \<le> of_int (b - a) * f"
  shows "\<exists>w. float_to_uint8 (fl32 (of_int a + fl32 (of_int (b - a) * f))) = Some w
             \<and> a + l \<le> uint w \<and> uint w \<le> b"
proof -
  define d where "d = b - a"
  define m where "m = fl32 (of_int d * f)"
  have d0: "(0::rat) \<le> of_int d" using assms(4) by (simp add: d_def)
  have d255: "(of_int d :: rat) \<le> 255"
  proof -
    have "d \<le> 255" using assms(3,5) by (simp add: d_def)
    then have "(of_int d :: rat) \<le> of_int 255" by (simp only: of_int_le_iff)
    then show ?thesis by simp
  qed
  have p0: "0 \<le> (of_int d :: rat) * f" using d0 assms(1) by (rule mult_nonneg_nonneg)
  have p1: "(of_int d :: rat) * f \<le> of_int d"
    using d0 assms(1,2) by (intro mult_left_le)
  have pl: "of_int l \<le> (of_int d :: rat) * f" using assms(7) by (simp only: d_def)
  have pa: "\<bar>(of_int d :: rat) * f\<bar> < 16777216" using p0 p1 d255 by linarith
  have m0: "of_int l \<le> m" unfolding m_def using pa pl by (rule fl32_ge_int)
  have m1: "m \<le> of_int d" unfolding m_def using pa p1 by (rule fl32_le_int)
  define s where "s = of_int a + m"
  have s0: "of_int (a + l) \<le> s" using m0 by (simp add: s_def)
  have s1: "s \<le> of_int b" using m1 by (simp add: s_def d_def)
  have al: "(0::rat) \<le> of_int (a + l)" using assms(3,6) by simp
  have "(of_int b :: rat) \<le> of_int 255" using assms(5) by (simp only: of_int_le_iff)
  then have b255: "(of_int b :: rat) \<le> 255" by simp
  have sa: "\<bar>s\<bar> < 16777216" using s0 s1 al b255 by linarith
  have "of_int (a + l) \<le> fl32 s" using sa s0 by (rule fl32_ge_int)
  moreover have "fl32 s \<le> of_int b" using sa s1 by (rule fl32_le_int)
  moreover have "0 \<le> a + l" using assms(3,6) by simp
  ultimately have "\<exists>w. float_to_uint8 (fl32 s) = Some w \<and> a + l \<le> uint w \<and> uint w \<le> b"
    using assms(5) by (rule float_to_uint8_between)
  then show ?thesis by (simp only: s_def m_def d_def)
qed

lemma lerp_down:
  fixes a b l :: int
  assumes "0 \<le> f" "f \<le> 1" "0 \<le> b" "b \<le> a" "a \<le> 255"
    and "0 \<le> l" "of_int l \<le> of_int (a - b) * f"
  shows "\<exists>w. float_to_uint8 (fl32 (of_int a + fl32 (of_int (b - a) * f))) = Some w
             \<and> b \<le> uint w \<and> uint w \<le> a - l"
proof -
  define d where "d = b - a"
  define m where "m = fl32 (of_int d * f)"
  have d0: "(of_int d :: rat) \<le> 0" using assms(4) by (simp add: d_def)
  have d255: "- 255 \<le> (of_int d :: rat)"
  proof -
    have "- 255 \<le> d" using assms(3,5) by (simp add: d_def)
    then have "(of_int (- 255) :: rat) \<le> of_int d" by (simp only: of_int_le_iff)
    then show ?thesis by simp
  qed
  have p0: "(of_int d :: rat) * f \<le> 0" using d0 assms(1) by (rule mult_nonpos_nonneg)
  have "(- of_int d :: rat) * f \<le> - of_int d"
    using d0 assms(1,2) by (intro mult_left_le) simp_all
  then have p1: "of_int d \<le> (of_int d :: rat) * f" by simp
  have "(of_int (a - b) :: rat) = - of_int d" by (simp add: d_def)
  then have "of_int l \<le> - ((of_int d :: rat) * f)" using assms(7) by simp
  then have pl: "(of_int d :: rat) * f \<le> of_int (- l)" by simp
  have pa: "\<bar>(of_int d :: rat) * f\<bar> < 16777216" using p0 p1 d255 by linarith
  have m0: "m \<le> of_int (- l)" unfolding m_def using pa pl by (rule fl32_le_int)
  have m1: "of_int d \<le> m" unfolding m_def using pa p1 by (rule fl32_ge_int)
  define s where "s = of_int a + m"
  have s0: "s \<le> of_int (a - l)" using m0 by (simp add: s_def)
  have s1: "of_int b \<le> s" using m1 by (simp add: s_def d_def)
  have b0: "(0::rat) \<le> of_int b" using assms(3) by simp
  have "(of_int (a - l) :: rat) \<le> of_int 255" using assms(5,6) by (simp only: of_int_le_iff)
  then have a255: "(of_int (a - l) :: rat) \<le> 255" by simp
  have sa: "\<bar>s\<bar> < 16777216" using s0 s1 b0 a255 by linarith
  have "of_int b \<le> fl32 s" using sa s1 by (rule fl32_ge_int)
  moreover have "fl32 s \<le> of_int (a - l)" using sa s0 by (rule fl32_le_int)
  moreover have "a - l \<le> 255" using assms(5,6) by simp
  ultimately have "\<exists>w. float_to_uint8 (fl32 s) = Some w \<and> b \<le> uint w \<and> uint w \<le> a - l"
    using assms(3) by (intro float_to_uint8_between)
  then show ?thesis by (simp only: s_def m_def d_def)
qed

lemma interpolateChannel_up:
  assumes "0 \<le> f" "f \<le> 1" "uint c1 \<le> uint c2"
    and "0 \<le> l" "of_int l \<le> of_int (uint c2 - uint c1) * f"
  shows "\<exists>w. interpolateChannel c1 c2 f = Some w \<and> uint c1 + l \<le> uint w \<and> uint w \<le> uint c2"
  unfolding interpolateChannel_def
  using assms(1,2) uint_ge_0 [of c1] assms(3) uint_u8_le [of c2] assms(4,5) by (rule lerp_up)

lemma interpolateChannel_down:
  assumes "0 \<le> f" "f \<le> 1" "uint c2 \<le> uint c1"
    and "0 \<le> l" "of_int l \<le> of_int (uint c1 - uint c2) * f"
  shows "\<exists>w. interpolateChannel c1 c2 f = Some w \<and> uint c2 \<le> uint w \<and> uint w \<le> uint c1 - l"
  unfolding interpolateChannel_def
  using assms(1,2) uint_ge_0 [of c2] assms(3) uint_u8_le [of c1] assms(4,5) by (rule lerp_down)

lemma interpolateChannel_between:
  assumes "0 \<le> f" "f \<le> 1"
  shows "\<exists>w. interpolateChannel c1 c2 f = Some w
           \<and> min (uint c1) (uint c2) \<le> uint w \<and> uint w \<le> max (uint c1) (uint c2)"
proof (cases "uint c1 \<le> uint c2")
  case True
  have "(of_int 0 :: rat) \<le> of_int (uint c2 - uint c1) * f"
    using True assms(1) by (simp del: of_int_diff)
  then have "\<exists>w. interpolateChannel c1 c2 f = Some w \<and> uint c1 + 0 \<le> uint w \<and> uint w \<le> uint c2"
    using assms True by (intro interpolateChannel_up) simp_all
  with True show ?thesis by (simp add: min_def max_def)
next
  case False
  then have le: "uint c2 \<le> uint c1" by simp
  have "(of_int 0 :: rat) \<le> of_int (uint c1 - uint c2) * f"
    using le assms(1) by (simp del: of_int_diff)
  then have "\<exists>w. interpolateChannel c1 c2 f = Some w \<and> uint c2 \<le> uint w \<and> uint w \<le> uint c1 - 0"
    using assms le by (intro interpolateChannel_down) simp_all
  with False show ?thesis by (simp add: min_def max_def)
qed

text \<open>At factor 1 the product, the sum and the conversion are exact.\<close>

lemma interpolateChannel_one: "interpolateChannel c1 c2 1 = Some c2"
proof -
  have d: "\<bar>uint c2 - uint c1\<bar> < 16777216"
    using uint_u8_le [of c1] uint_u8_le [of c2] uint_ge_0 [of c1] uint_ge_0 [of c2] by linarith
  have c: "\<bar>uint c2\<bar> < 16777216" using uint_u8_le [of c2] uint_ge_0 [of c2] by linarith
  have "fl32 (of_int (uint c2 - uint c1) * 1) = of_int (uint c2 - uint c1)"
    using d by (simp only: mult_1_right fl32_of_int)
  then have "fl32 (of_int (uint c1) + fl32 (of_int (uint c2 - uint c1) * 1)) = fl32 (of_int (uint c2))"
    by (simp del: of_int_diff) (simp only: of_int_diff, simp)
  also have "\<dots> = of_int (uint c2)" using c by (rule fl32_of_int)
  finally have e: "fl32 (of_int (uint c1) + fl32 (of_int (uint c2 - uint c1) * 1)) = of_int (uint c2)" .
  have "\<exists>w. float_to_uint8 (of_int (uint c2)) = Some w \<and> uint c2 \<le> uint w \<and> uint w \<le> uint c2"
    using uint_ge_0 [of c2] uint_u8_le [of c2] by (intro float_to_uint8_between) simp_all
  then obtain w where "float_to_uint8 (of_int (uint c2)) = Some w" "uint w = uint c2" by force
  then have "float_to_uint8 (of_int (uint c2)) = Some c2" by (simp add: word_uint_eq_iff)
  then show ?thesis unfolding interpolateChannel_def by (simp only: e)
qed

subsection \<open>The loops of drawOnRings\<close>

lemma for_loop_opt_partial:
  assumes "for_loop_opt n body s = Some s'" "I 0 s"
    and "\<And>k t t'. k < n \<Longrightarrow> I k t \<Longrightarrow> body k t = Some t' \<Longrightarrow> I (Suc k) t'"
  shows "I n s'"
  using assms
proof (induction n arbitrary: s')
  case 0
  then show ?case by simp
next
  case (Suc n)
  from Suc.prems(1) obtain t where t: "for_loop_opt n body s = Some t" and b: "body n t = Some s'"
    by (auto split: option.splits)
  have "I n t"
    using t Suc.prems(2) 
  proof (rule Suc.IH)
    fix k u u' assume "k < n" "I k u" "body k u = Some u'"
    then show "I (Suc k) u'" using Suc.prems(3) [of k u u'] by simp
  qed
  then show ?case using b Suc.prems(3) [of n t s'] by simp
qed

lemma for_loop_opt_total:
  assumes "I 0 s"
    and "\<And>k t. k < n \<Longrightarrow> I k t \<Longrightarrow> \<exists>t'. body k t = Some t' \<and> I (Suc k) t'"
  shows "\<exists>s'. for_loop_opt n body s = Some s' \<and> I n s'"
  using assms
proof (induction n)
  case 0
  then show ?case by simp
next
  case (Suc n)
  have "\<exists>t. for_loop_opt n body s = Some t \<and> I n t"
    using Suc.prems(1)
  proof (rule Suc.IH)
    fix k u assume "k < n" "I k u"
    then show "\<exists>t'. body k u = Some t' \<and> I (Suc k) t'" using Suc.prems(2) [of k u] by simp
  qed
  then obtain t where t: "for_loop_opt n body s = Some t" "I n t" by blast
  then obtain t' where "body n t = Some t'" "I (Suc n) t'" using Suc.prems(2) [of n t] by auto
  with t show ?case by simp
qed

lemma drawOuterPixel_SomeD:
  assumes "drawOuterPixel f k st = Some st'"
  shows "\<exists>newColor cp.
     interpolateColor24bit (currentOuterRing (fst st) k) (targetOuterring (fst st) k) f = Some newColor
     \<and> correctedPixel OUTER_RING_LED_COUNT k (offsetOuterRing (fst st)) = Some cp
     \<and> fst st' = (fst st)\<lparr>outerRing := np_setPixelColor OUTER_RING_LED_COUNT (word_of_int cp) newColor (outerRing (fst st)),
                  currentOuterRing := (currentOuterRing (fst st))(k := newColor)\<rparr>
     \<and> snd st' = snd st + calcEstimatedLEDCurrent newColor (brightnessOuterRing (fst st))"
  using assms unfolding drawOuterPixel_def Let_def
  by (auto split: option.splits)


text \<open>What the first loop leaves alone.\<close>

lemma drawOuter_loop_frame:
  assumes "for_loop_opt n (drawOuterPixel f) (s0, t0) = Some st"
  shows "targetOuterring (fst st) = targetOuterring s0
       \<and> targetInnerRing (fst st) = targetInnerRing s0
       \<and> currentInnerRing (fst st) = currentInnerRing s0
       \<and> innerRing (fst st) = innerRing s0
       \<and> logger (fst st) = logger s0
       \<and> currentLimit (fst st) = currentLimit s0
       \<and> brightnessOuterRing (fst st) = brightnessOuterRing s0
       \<and> brightnessInnerRing (fst st) = brightnessInnerRing s0
       \<and> offsetOuterRing (fst st) = offsetOuterRing s0
       \<and> offsetInnerRing (fst st) = offsetInnerRing s0
       \<and> np_brightness (outerRing (fst st)) = np_brightness (outerRing s0)
       \<and> np_shows (outerRing (fst st)) = np_shows (outerRing s0)"
  using assms
proof (rule for_loop_opt_partial [where I = "\<lambda>k st.
         targetOuterring (fst st) = targetOuterring s0
       \<and> targetInnerRing (fst st) = targetInnerRing s0
       \<and> currentInnerRing (fst st) = currentInnerRing s0
       \<and> innerRing (fst st) = innerRing s0
       \<and> logger (fst st) = logger s0
       \<and> currentLimit (fst st) = currentLimit s0
       \<and> brightnessOuterRing (fst st) = brightnessOuterRing s0
       \<and> brightnessInnerRing (fst st) = brightnessInnerRing s0
       \<and> offsetOuterRing (fst st) = offsetOuterRing s0
       \<and> offsetInnerRing (fst st) = offsetInnerRing s0
       \<and> np_brightness (outerRing (fst st)) = np_brightness (outerRing s0)
       \<and> np_shows (outerRing (fst st)) = np_shows (outerRing s0)"])
  show "targetOuterring (fst (s0, t0)) = targetOuterring s0
       \<and> targetInnerRing (fst (s0, t0)) = targetInnerRing s0
       \<and> currentInnerRing (fst (s0, t0)) = currentInnerRing s0
       \<and> innerRing (fst (s0, t0)) = innerRing s0
       \<and> logger (fst (s0, t0)) = logger s0
       \<and> currentLimit (fst (s0, t0)) = currentLimit s0
       \<and> brightnessOuterRing (fst (s0, t0)) = brightnessOuterRing s0
       \<and> brightnessInnerRing (fst (s0, t0)) = brightnessInnerRing s0
       \<and> offsetOuterRing (fst (s0, t0)) = offsetOuterRing s0
       \<and> offsetInnerRing (fst (s0, t0)) = offsetInnerRing s0
       \<and> np_brightness (outerRing (fst (s0, t0))) = np_brightness (outerRing s0)
       \<and> np_shows (outerRing (fst (s0, t0))) = np_shows (outerRing s0)"
    by simp
next
  fix k t t'
  assume inv: "targetOuterring (fst t) = targetOuterring s0
       \<and> targetInnerRing (fst t) = targetInnerRing s0
       \<and> currentInnerRing (fst t) = currentInnerRing s0
       \<and> innerRing (fst t) = innerRing s0
       \<and> logger (fst t) = logger s0
       \<and> currentLimit (fst t) = currentLimit s0
       \<and> brightnessOuterRing (fst t) = brightnessOuterRing s0
       \<and> brightnessInnerRing (fst t) = brightnessInnerRing s0
       \<and> offsetOuterRing (fst t) = offsetOuterRing s0
       \<and> offsetInnerRing (fst t) = offsetInnerRing s0
       \<and> np_brightness (outerRing (fst t)) = np_brightness (outerRing s0)
       \<and> np_shows (outerRing (fst t)) = np_shows (outerRing s0)"
    and step: "drawOuterPixel f k t = Some t'"
  from drawOuterPixel_SomeD [OF step] obtain newColor cp where
    "fst t' = (fst t)\<lparr>outerRing := np_setPixelColor OUTER_RING_LED_COUNT (word_of_int cp) newColor (outerRing (fst t)),
                  currentOuterRing := (currentOuterRing (fst t))(k := newColor)\<rparr>"
    by blast
  with inv show "targetOuterring (fst t') = targetOuterring s0
       \<and> targetInnerRing (fst t') = targetInnerRing s0
       \<and> currentInnerRing (fst t') = currentInnerRing s0
       \<and> innerRing (fst t') = innerRing s0
       \<and> logger (fst t') = logger s0
       \<and> currentLimit (fst t') = currentLimit s0
       \<and> brightnessOuterRing (fst t') = brightnessOuterRing s0
       \<and> brightnessInnerRing (fst t') = brightnessInnerRing s0
       \<and> offsetOuterRing (fst t') = offsetOuterRing s0
       \<and> offsetInnerRing (fst t') = offsetInnerRing s0
       \<and> np_brightness (outerRing (fst t')) = np_brightness (outerRing s0)
       \<and> np_shows (outerRing (fst t')) = np_shows (outerRing s0)"
    by (simp add: np_setPixelColor_def)
qed

text \<open>The current buffer after \<open>n\<close> rounds of the first loop.\<close>

lemma drawOuter_loop_current:
  assumes "for_loop_opt n (drawOuterPixel f) (s0, t0) = Some st"
  shows "(\<forall>i<n. interpolateColor24bit (currentOuterRing s0 i) (targetOuterring s0 i) f
                   = Some (currentOuterRing (fst st) i))
       \<and> (\<forall>i\<ge>n. currentOuterRing (fst st) i = currentOuterRing s0 i)"
proof -
  have "targetOuterring (fst st) = targetOuterring s0
      \<and> (\<forall>i<n. interpolateColor24bit (currentOuterRing s0 i) (targetOuterring s0 i) f
                   = Some (currentOuterRing (fst st) i))
      \<and> (\<forall>i\<ge>n. currentOuterRing (fst st) i = currentOuterRing s0 i)"
    using assms
  proof (rule for_loop_opt_partial [where I = "\<lambda>k st.
        targetOuterring (fst st) = targetOuterring s0
      \<and> (\<forall>i<k. interpolateColor24bit (currentOuterRing s0 i) (targetOuterring s0 i) f
                   = Some (currentOuterRing (fst st) i))
      \<and> (\<forall>i\<ge>k. currentOuterRing (fst st) i = currentOuterRing s0 i)"])
    show "targetOuterring (fst (s0, t0)) = targetOuterring s0
      \<and> (\<forall>i<0. interpolateColor24bit (currentOuterRing s0 i) (targetOuterring s0 i) f
                   = Some (currentOuterRing (fst (s0, t0)) i))
      \<and> (\<forall>i\<ge>0. currentOuterRing (fst (s0, t0)) i = currentOuterRing s0 i)"
      by simp
  next
    fix k t t'
    assume inv: "targetOuterring (fst t) = targetOuterring s0
      \<and> (\<forall>i<k. interpolateColor24bit (currentOuterRing s0 i) (targetOuterring s0 i) f
                   = Some (currentOuterRing (fst t) i))
      \<and> (\<forall>i\<ge>k. currentOuterRing (fst t) i = currentOuterRing s0 i)"
      and step: "drawOuterPixel f k t = Some t'"
    from drawOuterPixel_SomeD [OF step] obtain newColor cp where
      nc: "interpolateColor24bit (currentOuterRing (fst t) k) (targetOuterring (fst t) k) f = Some newColor"
      and t': "fst t' = (fst t)\<lparr>outerRing := np_setPixelColor OUTER_RING_LED_COUNT (word_of_int cp) newColor (outerRing (fst t)),
                  currentOuterRing := (currentOuterRing (fst t))(k := newColor)\<rparr>"
      by blast
    from inv have "currentOuterRing (fst t) k = currentOuterRing s0 k" by simp
    with nc inv have nc0: "interpolateColor24bit (currentOuterRing s0 k) (targetOuterring s0 k) f = Some newColor"
      by simp
    show "targetOuterring (fst t') = targetOuterring s0
      \<and> (\<forall>i<Suc k. interpolateColor24bit (currentOuterRing s0 i) (targetOuterring s0 i) f
                   = Some (currentOuterRing (fst t') i))
      \<and> (\<forall>i\<ge>Suc k. currentOuterRing (fst t') i = currentOuterRing s0 i)"
      using inv nc0 by (simp add: t' less_Suc_eq)
  qed
  then show ?thesis by simp
qed

text \<open>The running total does not wrap: every summand is at most 60.\<close>

lemma drawOuter_loop_total:
  assumes "for_loop_opt n (drawOuterPixel f) (s0, 0) = Some st" "n \<le> 1000"
  shows "unat (snd st) =
     (\<Sum>i<n. unat (calcEstimatedLEDCurrent (currentOuterRing (fst st) i) (brightnessOuterRing s0)))"
proof -
  have "brightnessOuterRing (fst st) = brightnessOuterRing s0
      \<and> unat (snd st) =
        (\<Sum>i<n. unat (calcEstimatedLEDCurrent (currentOuterRing (fst st) i) (brightnessOuterRing s0)))"
    using assms(1)
  proof (rule for_loop_opt_partial [where I = "\<lambda>k st.
        brightnessOuterRing (fst st) = brightnessOuterRing s0
      \<and> unat (snd st) =
        (\<Sum>i<k. unat (calcEstimatedLEDCurrent (currentOuterRing (fst st) i) (brightnessOuterRing s0)))"])
    show "brightnessOuterRing (fst (s0, 0 :: 16 word)) = brightnessOuterRing s0
      \<and> unat (snd (s0, 0 :: 16 word)) =
        (\<Sum>i<0. unat (calcEstimatedLEDCurrent (currentOuterRing (fst (s0, 0 :: 16 word)) i) (brightnessOuterRing s0)))"
      by simp
  next
    fix k t t'
    assume k: "k < n"
      and inv: "brightnessOuterRing (fst t) = brightnessOuterRing s0
      \<and> unat (snd t) =
        (\<Sum>i<k. unat (calcEstimatedLEDCurrent (currentOuterRing (fst t) i) (brightnessOuterRing s0)))"
      and step: "drawOuterPixel f k t = Some t'"
    from drawOuterPixel_SomeD [OF step] obtain newColor cp where
      t': "fst t' = (fst t)\<lparr>outerRing := np_setPixelColor OUTER_RING_LED_COUNT (word_of_int cp) newColor (outerRing (fst t)),
                  currentOuterRing := (currentOuterRing (fst t))(k := newColor)\<rparr>"
      and tot: "snd t' = snd t + calcEstimatedLEDCurrent newColor (brightnessOuterRing (fst t))"
      by blast
    let ?c = "\<lambda>s i. unat (calcEstimatedLEDCurrent (currentOuterRing s i) (brightnessOuterRing s0))"
    have "(\<Sum>i<k. ?c (fst t) i) \<le> (\<Sum>i<k. 60)"
      by (rule sum_mono) (rule calcEstimatedLEDCurrent_le)
    then have b: "unat (snd t) \<le> 60 * k" using inv by simp
    have c: "unat (calcEstimatedLEDCurrent newColor (brightnessOuterRing s0)) \<le> 60"
      by (rule calcEstimatedLEDCurrent_le)
    have "unat (snd t) + unat (calcEstimatedLEDCurrent newColor (brightnessOuterRing s0)) < 2 ^ LENGTH(16)"
      using b c k assms(2) by simp
    then have "unat (snd t + calcEstimatedLEDCurrent newColor (brightnessOuterRing s0))
        = unat (snd t) + unat (calcEstimatedLEDCurrent newColor (brightnessOuterRing s0))"
      by (simp only: unat_add_lem [THEN iffD1])
    moreover have "(\<Sum>i<k. ?c (fst t') i) = (\<Sum>i<k. ?c (fst t) i)"
      by (rule sum.cong) (simp_all add: t')
    moreover have "?c (fst t') k = unat (calcEstimatedLEDCurrent newColor (brightnessOuterRing s0))"
      by (simp add: t')
    ultimately show "brightnessOuterRing (fst t') = brightnessOuterRing s0
      \<and> unat (snd t') =
        (\<Sum>i<Suc k. unat (calcEstimatedLEDCurrent (currentOuterRing (fst t') i) (brightnessOuterRing s0)))"
      using inv tot by (simp add: t')
  qed
  then show ?thesis by simp
qed

lemma interpolateColor24bit_defined:
  assumes "0 \<le> f" "f \<le> 1"
  shows "\<exists>c. interpolateColor24bit c1 c2 f = Some c"
proof -
  obtain r g b where
    "interpolateChannel (ucast (drop_bit 16 c1 AND 0xFF)) (ucast (drop_bit 16 c2 AND 0xFF)) f = Some r"
    "interpolateChannel (ucast (drop_bit 8 c1 AND 0xFF)) (ucast (drop_bit 8 c2 AND 0xFF)) f = Some g"
    "interpolateChannel (ucast (c1 AND 0xFF)) (ucast (c2 AND 0xFF)) f = Some b"
    using interpolateChannel_between [OF assms] by meson
  then show ?thesis by (simp add: interpolateColor24bit_def)
qed

lemma c_rem_nonneg: "0 \<le> a \<Longrightarrow> 0 < b \<Longrightarrow> c_rem a b = a mod b"
  by (cases "a = 0") (simp_all add: c_rem_def)

lemma c_rem_neg: "a < 0 \<Longrightarrow> 0 < b \<Longrightarrow> c_rem a b \<le> 0 \<and> - b < c_rem a b"
proof -
  assume a: "a < 0" and b: "0 < b"
  have "0 \<le> \<bar>a\<bar> mod \<bar>b\<bar>" "\<bar>a\<bar> mod \<bar>b\<bar> < b" using b by simp_all
  then show ?thesis using a by (simp add: c_rem_def)
qed

lemma slot_in_range:
  assumes "0 \<le> cp" "cp < 65536"
  shows "unat (word_of_int cp :: 16 word) = nat cp"
proof -
  have "take_bit 16 cp = cp" using assms by (intro take_bit_int_eq_self) simp_all
  then show ?thesis by (simp add: unat_eq_nat_uint uint_word_of_int_eq)
qed

lemma slot_negative:
  assumes "cp < 0" "- 91 < cp"
  shows "91 \<le> unat (word_of_int cp :: 16 word)"
proof -
  have "(cp + 65536) mod 65536 = cp + 65536"
    using assms by (intro mod_pos_pos_trivial) simp_all
  moreover have "(cp + 65536) mod 65536 = cp mod 65536" by simp
  ultimately have "cp mod 65536 = cp + 65536" by simp
  then have "uint (word_of_int cp :: 16 word) = cp + 65536"
    by (simp add: uint_word_of_int_eq take_bit_eq_mod)
  then show ?thesis using assms by (simp add: unat_eq_nat_uint)
qed

lemma mod_shift_neq:
  fixes a d m :: int
  assumes "0 < d" "d < m"
  shows "(a + d) mod m \<noteq> a mod m"
proof
  assume "(a + d) mod m = a mod m"
  then have "m dvd (a + d) - a" by (simp only: mod_eq_dvd_iff)
  then have "m dvd d" by simp
  then show False using assms zdvd_not_zless by blast
qed

lemma correctedPixel_SomeD:
  "correctedPixel count i off = Some cp \<Longrightarrow> cp = c_rem (int count + int i + sint off) (int count)"
  by (simp add: correctedPixel_def Let_def split: if_splits)

text \<open>The loop is defined for a factor from 0 to 1 when the index sum cannot overflow.\<close>

lemma drawOuter_loop_defined:
  assumes "0 \<le> f" "f \<le> 1" "int OUTER_RING_LED_COUNT + int n + sint (offsetOuterRing s0) \<le> 2147483648"
  shows "\<exists>st. for_loop_opt n (drawOuterPixel f) (s0, t0) = Some st"
proof -
  have "\<exists>st. for_loop_opt n (drawOuterPixel f) (s0, t0) = Some st
            \<and> offsetOuterRing (fst st) = offsetOuterRing s0"
  proof (rule for_loop_opt_total [where I = "\<lambda>k (st :: LEDRings \<times> 16 word).
             offsetOuterRing (fst st) = offsetOuterRing s0"])
    show "offsetOuterRing (fst (s0, t0)) = offsetOuterRing s0" by simp
  next
    fix k and t :: "LEDRings \<times> 16 word"
    assume k: "k < n" and inv: "offsetOuterRing (fst t) = offsetOuterRing s0"
    obtain c where c: "interpolateColor24bit (currentOuterRing (fst t) k) (targetOuterring (fst t) k) f = Some c"
      using interpolateColor24bit_defined [OF assms(1,2)] by blast
    have "\<not> int OUTER_RING_LED_COUNT + int k + sint (offsetOuterRing s0) > 2147483647"
      using k assms(3) by simp
    then show "\<exists>t'. drawOuterPixel f k t = Some t' \<and> offsetOuterRing (fst t') = offsetOuterRing s0"
      using c inv by (simp add: drawOuterPixel_def correctedPixel_def Let_def)
  qed
  then show ?thesis by blast
qed

text \<open>
  The driver's pixels after \<open>n\<close> rounds: a logical pixel whose index sum is not negative
  has its new colour at the slot \<open>(i + offset) mod 91\<close>.
\<close>

lemma drawOuter_loop_pixels:
  assumes "for_loop_opt n (drawOuterPixel f) (s0, t0) = Some st" "n \<le> 91"
  shows "\<forall>j<n. 0 \<le> 91 + int j + sint (offsetOuterRing s0) \<longrightarrow>
            np_pixels (outerRing (fst st)) (nat ((int j + sint (offsetOuterRing s0)) mod 91))
              = currentOuterRing (fst st) j"
proof -
  let ?off = "sint (offsetOuterRing s0)"
  have "offsetOuterRing (fst st) = offsetOuterRing s0
      \<and> (\<forall>j<n. 0 \<le> 91 + int j + ?off \<longrightarrow>
            np_pixels (outerRing (fst st)) (nat ((int j + ?off) mod 91)) = currentOuterRing (fst st) j)"
    using assms(1)
  proof (rule for_loop_opt_partial [where I = "\<lambda>k st.
        offsetOuterRing (fst st) = offsetOuterRing s0
      \<and> (\<forall>j<k. 0 \<le> 91 + int j + ?off \<longrightarrow>
            np_pixels (outerRing (fst st)) (nat ((int j + ?off) mod 91)) = currentOuterRing (fst st) j)"])
    show "offsetOuterRing (fst (s0, t0)) = offsetOuterRing s0
      \<and> (\<forall>j<0. 0 \<le> 91 + int j + ?off \<longrightarrow>
            np_pixels (outerRing (fst (s0, t0))) (nat ((int j + ?off) mod 91))
              = currentOuterRing (fst (s0, t0)) j)"
      by simp
  next
    fix k t t'
    assume k: "k < n"
      and inv: "offsetOuterRing (fst t) = offsetOuterRing s0
      \<and> (\<forall>j<k. 0 \<le> 91 + int j + ?off \<longrightarrow>
            np_pixels (outerRing (fst t)) (nat ((int j + ?off) mod 91)) = currentOuterRing (fst t) j)"
      and step: "drawOuterPixel f k t = Some t'"
    from drawOuterPixel_SomeD [OF step] obtain newColor cp where
      cp: "correctedPixel OUTER_RING_LED_COUNT k (offsetOuterRing (fst t)) = Some cp"
      and t': "fst t' = (fst t)\<lparr>outerRing := np_setPixelColor OUTER_RING_LED_COUNT (word_of_int cp) newColor (outerRing (fst t)),
                  currentOuterRing := (currentOuterRing (fst t))(k := newColor)\<rparr>"
      by blast
    have cpv: "cp = c_rem (91 + int k + ?off) 91"
      using correctedPixel_SomeD [OF cp] inv by (simp add: OUTER_RING_LED_COUNT_def)
    have shift: "\<And>j. (91 + int j + ?off) mod 91 = (int j + ?off) mod 91"
      by (simp add: add.assoc)
    have "\<forall>j<Suc k. 0 \<le> 91 + int j + ?off \<longrightarrow>
            np_pixels (outerRing (fst t')) (nat ((int j + ?off) mod 91)) = currentOuterRing (fst t') j"
    proof (intro allI impI)
      fix j assume j: "j < Suc k" and nn: "0 \<le> 91 + int j + ?off"
      show "np_pixels (outerRing (fst t')) (nat ((int j + ?off) mod 91)) = currentOuterRing (fst t') j"
      proof (cases "j = k")
        case True
        then have "cp = (int k + ?off) mod 91"
          using nn cpv by (simp add: c_rem_nonneg shift)
        moreover have "0 \<le> (int k + ?off) mod 91" "(int k + ?off) mod 91 < 91" by simp_all
        ultimately have "unat (word_of_int cp :: 16 word) = nat ((int k + ?off) mod 91)"
          "nat ((int k + ?off) mod 91) < 91"
          by (simp_all add: slot_in_range)
        then show ?thesis using True
          by (simp add: t' np_setPixelColor_def OUTER_RING_LED_COUNT_def)
      next
        case False
        then have jk: "j < k" using j by simp
        then have old: "np_pixels (outerRing (fst t)) (nat ((int j + ?off) mod 91)) = currentOuterRing (fst t) j"
          using inv nn by simp
        have nnk: "0 \<le> 91 + int k + ?off" using nn jk by simp
        then have cpk: "cp = (int k + ?off) mod 91" using cpv by (simp add: c_rem_nonneg shift)
        have "(int j + ?off + (int k - int j)) mod 91 \<noteq> (int j + ?off) mod 91"
          using jk k assms(2) by (intro mod_shift_neq) simp_all
        moreover have "int j + ?off + (int k - int j) = int k + ?off" by simp
        ultimately have ne: "(int k + ?off) mod 91 \<noteq> (int j + ?off) mod 91" by metis
        have "0 \<le> (int k + ?off) mod 91" "(int k + ?off) mod 91 < 91" by simp_all
        then have "unat (word_of_int cp :: 16 word) = nat ((int k + ?off) mod 91)"
          by (simp add: cpk slot_in_range)
        moreover have "nat ((int k + ?off) mod 91) \<noteq> nat ((int j + ?off) mod 91)"
          using ne by (simp add: nat_eq_iff)
        ultimately show ?thesis using old False
          by (simp add: t' np_setPixelColor_def)
      qed
    qed
    then show "offsetOuterRing (fst t') = offsetOuterRing s0
      \<and> (\<forall>j<Suc k. 0 \<le> 91 + int j + ?off \<longrightarrow>
            np_pixels (outerRing (fst t')) (nat ((int j + ?off) mod 91)) = currentOuterRing (fst t') j)"
      using inv by (simp add: t')
  qed
  then show ?thesis by simp
qed

text \<open>A slot that no index sum hits keeps its colour.\<close>

lemma drawOuter_loop_untouched:
  assumes "for_loop_opt n (drawOuterPixel f) (s0, t0) = Some st"
    and "\<forall>j<n. c_rem (91 + int j + sint (offsetOuterRing s0)) 91 \<noteq> int p"
  shows "np_pixels (outerRing (fst st)) p = np_pixels (outerRing s0) p"
proof -
  let ?off = "sint (offsetOuterRing s0)"
  have "offsetOuterRing (fst st) = offsetOuterRing s0
      \<and> np_pixels (outerRing (fst st)) p = np_pixels (outerRing s0) p"
    using assms(1)
  proof (rule for_loop_opt_partial [where I = "\<lambda>k st.
        offsetOuterRing (fst st) = offsetOuterRing s0
      \<and> np_pixels (outerRing (fst st)) p = np_pixels (outerRing s0) p"])
    show "offsetOuterRing (fst (s0, t0)) = offsetOuterRing s0
      \<and> np_pixels (outerRing (fst (s0, t0))) p = np_pixels (outerRing s0) p"
      by simp
  next
    fix k t t'
    assume k: "k < n"
      and inv: "offsetOuterRing (fst t) = offsetOuterRing s0
      \<and> np_pixels (outerRing (fst t)) p = np_pixels (outerRing s0) p"
      and step: "drawOuterPixel f k t = Some t'"
    from drawOuterPixel_SomeD [OF step] obtain newColor cp where
      cp: "correctedPixel OUTER_RING_LED_COUNT k (offsetOuterRing (fst t)) = Some cp"
      and t': "fst t' = (fst t)\<lparr>outerRing := np_setPixelColor OUTER_RING_LED_COUNT (word_of_int cp) newColor (outerRing (fst t)),
                  currentOuterRing := (currentOuterRing (fst t))(k := newColor)\<rparr>"
      by blast
    have cpv: "cp = c_rem (91 + int k + ?off) 91"
      using correctedPixel_SomeD [OF cp] inv by (simp add: OUTER_RING_LED_COUNT_def)
    then have ne: "cp \<noteq> int p" using assms(2) k by simp
    have "unat (word_of_int cp :: 16 word) < 91 \<Longrightarrow> unat (word_of_int cp :: 16 word) \<noteq> p"
    proof (cases "0 \<le> 91 + int k + ?off")
      case True
      then have "cp = (91 + int k + ?off) mod 91" using cpv by (simp add: c_rem_nonneg)
      then have "0 \<le> cp" "cp < 91" by simp_all
      then have "unat (word_of_int cp :: 16 word) = nat cp" by (simp add: slot_in_range)
      then show "unat (word_of_int cp :: 16 word) \<noteq> p" using ne \<open>0 \<le> cp\<close> by auto
    next
      case False
      then have "cp \<le> 0 \<and> - 91 < cp" using cpv c_rem_neg [of "91 + int k + ?off" 91] by simp
      moreover assume "unat (word_of_int cp :: 16 word) < 91"
      ultimately have "cp = 0" using slot_negative [of cp] by force
      then have "unat (word_of_int cp :: 16 word) = 0" by simp
      then show "unat (word_of_int cp :: 16 word) \<noteq> p" using ne \<open>cp = 0\<close> by auto
    qed
    then show "offsetOuterRing (fst t') = offsetOuterRing s0
      \<and> np_pixels (outerRing (fst t')) p = np_pixels (outerRing s0) p"
      using inv by (auto simp add: t' np_setPixelColor_def OUTER_RING_LED_COUNT_def)
  qed
  then show ?thesis by simp
qed

lemma drawInnerPixel_SomeD:
  assumes "drawInnerPixel f k st = Some st'"
  shows "\<exists>newColor cp.
     interpolateColor24bit (currentInnerRing (fst st) k) (targetInnerRing (fst st) k) f = Some newColor
     \<and> correctedPixel INNER_RING_LED_COUNT k (offsetInnerRing (fst st)) = Some cp
     \<and> fst st' = (fst st)\<lparr>innerRing := np_setPixelColor INNER_RING_LED_COUNT (word_of_int cp) newColor (innerRing (fst st)),
                  currentInnerRing := (currentInnerRing (fst st))(k := newColor)\<rparr>
     \<and> snd st' = snd st + calcEstimatedLEDCurrent newColor (brightnessInnerRing (fst st))"
  using assms unfolding drawInnerPixel_def Let_def
  by (auto split: option.splits)


text \<open>What the second loop leaves alone.\<close>

lemma drawInner_loop_frame:
  assumes "for_loop_opt n (drawInnerPixel f) (s0, t0) = Some st"
  shows "targetInnerRing (fst st) = targetInnerRing s0
       \<and> targetOuterring (fst st) = targetOuterring s0
       \<and> currentOuterRing (fst st) = currentOuterRing s0
       \<and> outerRing (fst st) = outerRing s0
       \<and> logger (fst st) = logger s0
       \<and> currentLimit (fst st) = currentLimit s0
       \<and> brightnessInnerRing (fst st) = brightnessInnerRing s0
       \<and> brightnessOuterRing (fst st) = brightnessOuterRing s0
       \<and> offsetInnerRing (fst st) = offsetInnerRing s0
       \<and> offsetOuterRing (fst st) = offsetOuterRing s0
       \<and> np_brightness (innerRing (fst st)) = np_brightness (innerRing s0)
       \<and> np_shows (innerRing (fst st)) = np_shows (innerRing s0)"
  using assms
proof (rule for_loop_opt_partial [where I = "\<lambda>k st.
         targetInnerRing (fst st) = targetInnerRing s0
       \<and> targetOuterring (fst st) = targetOuterring s0
       \<and> currentOuterRing (fst st) = currentOuterRing s0
       \<and> outerRing (fst st) = outerRing s0
       \<and> logger (fst st) = logger s0
       \<and> currentLimit (fst st) = currentLimit s0
       \<and> brightnessInnerRing (fst st) = brightnessInnerRing s0
       \<and> brightnessOuterRing (fst st) = brightnessOuterRing s0
       \<and> offsetInnerRing (fst st) = offsetInnerRing s0
       \<and> offsetOuterRing (fst st) = offsetOuterRing s0
       \<and> np_brightness (innerRing (fst st)) = np_brightness (innerRing s0)
       \<and> np_shows (innerRing (fst st)) = np_shows (innerRing s0)"])
  show "targetInnerRing (fst (s0, t0)) = targetInnerRing s0
       \<and> targetOuterring (fst (s0, t0)) = targetOuterring s0
       \<and> currentOuterRing (fst (s0, t0)) = currentOuterRing s0
       \<and> outerRing (fst (s0, t0)) = outerRing s0
       \<and> logger (fst (s0, t0)) = logger s0
       \<and> currentLimit (fst (s0, t0)) = currentLimit s0
       \<and> brightnessInnerRing (fst (s0, t0)) = brightnessInnerRing s0
       \<and> brightnessOuterRing (fst (s0, t0)) = brightnessOuterRing s0
       \<and> offsetInnerRing (fst (s0, t0)) = offsetInnerRing s0
       \<and> offsetOuterRing (fst (s0, t0)) = offsetOuterRing s0
       \<and> np_brightness (innerRing (fst (s0, t0))) = np_brightness (innerRing s0)
       \<and> np_shows (innerRing (fst (s0, t0))) = np_shows (innerRing s0)"
    by simp
next
  fix k t t'
  assume inv: "targetInnerRing (fst t) = targetInnerRing s0
       \<and> targetOuterring (fst t) = targetOuterring s0
       \<and> currentOuterRing (fst t) = currentOuterRing s0
       \<and> outerRing (fst t) = outerRing s0
       \<and> logger (fst t) = logger s0
       \<and> currentLimit (fst t) = currentLimit s0
       \<and> brightnessInnerRing (fst t) = brightnessInnerRing s0
       \<and> brightnessOuterRing (fst t) = brightnessOuterRing s0
       \<and> offsetInnerRing (fst t) = offsetInnerRing s0
       \<and> offsetOuterRing (fst t) = offsetOuterRing s0
       \<and> np_brightness (innerRing (fst t)) = np_brightness (innerRing s0)
       \<and> np_shows (innerRing (fst t)) = np_shows (innerRing s0)"
    and step: "drawInnerPixel f k t = Some t'"
  from drawInnerPixel_SomeD [OF step] obtain newColor cp where
    "fst t' = (fst t)\<lparr>innerRing := np_setPixelColor INNER_RING_LED_COUNT (word_of_int cp) newColor (innerRing (fst t)),
                  currentInnerRing := (currentInnerRing (fst t))(k := newColor)\<rparr>"
    by blast
  with inv show "targetInnerRing (fst t') = targetInnerRing s0
       \<and> targetOuterring (fst t') = targetOuterring s0
       \<and> currentOuterRing (fst t') = currentOuterRing s0
       \<and> outerRing (fst t') = outerRing s0
       \<and> logger (fst t') = logger s0
       \<and> currentLimit (fst t') = currentLimit s0
       \<and> brightnessInnerRing (fst t') = brightnessInnerRing s0
       \<and> brightnessOuterRing (fst t') = brightnessOuterRing s0
       \<and> offsetInnerRing (fst t') = offsetInnerRing s0
       \<and> offsetOuterRing (fst t') = offsetOuterRing s0
       \<and> np_brightness (innerRing (fst t')) = np_brightness (innerRing s0)
       \<and> np_shows (innerRing (fst t')) = np_shows (innerRing s0)"
    by (simp add: np_setPixelColor_def)
qed

text \<open>The current buffer after \<open>n\<close> rounds of the second loop.\<close>

lemma drawInner_loop_current:
  assumes "for_loop_opt n (drawInnerPixel f) (s0, t0) = Some st"
  shows "(\<forall>i<n. interpolateColor24bit (currentInnerRing s0 i) (targetInnerRing s0 i) f
                   = Some (currentInnerRing (fst st) i))
       \<and> (\<forall>i\<ge>n. currentInnerRing (fst st) i = currentInnerRing s0 i)"
proof -
  have "targetInnerRing (fst st) = targetInnerRing s0
      \<and> (\<forall>i<n. interpolateColor24bit (currentInnerRing s0 i) (targetInnerRing s0 i) f
                   = Some (currentInnerRing (fst st) i))
      \<and> (\<forall>i\<ge>n. currentInnerRing (fst st) i = currentInnerRing s0 i)"
    using assms
  proof (rule for_loop_opt_partial [where I = "\<lambda>k st.
        targetInnerRing (fst st) = targetInnerRing s0
      \<and> (\<forall>i<k. interpolateColor24bit (currentInnerRing s0 i) (targetInnerRing s0 i) f
                   = Some (currentInnerRing (fst st) i))
      \<and> (\<forall>i\<ge>k. currentInnerRing (fst st) i = currentInnerRing s0 i)"])
    show "targetInnerRing (fst (s0, t0)) = targetInnerRing s0
      \<and> (\<forall>i<0. interpolateColor24bit (currentInnerRing s0 i) (targetInnerRing s0 i) f
                   = Some (currentInnerRing (fst (s0, t0)) i))
      \<and> (\<forall>i\<ge>0. currentInnerRing (fst (s0, t0)) i = currentInnerRing s0 i)"
      by simp
  next
    fix k t t'
    assume inv: "targetInnerRing (fst t) = targetInnerRing s0
      \<and> (\<forall>i<k. interpolateColor24bit (currentInnerRing s0 i) (targetInnerRing s0 i) f
                   = Some (currentInnerRing (fst t) i))
      \<and> (\<forall>i\<ge>k. currentInnerRing (fst t) i = currentInnerRing s0 i)"
      and step: "drawInnerPixel f k t = Some t'"
    from drawInnerPixel_SomeD [OF step] obtain newColor cp where
      nc: "interpolateColor24bit (currentInnerRing (fst t) k) (targetInnerRing (fst t) k) f = Some newColor"
      and t': "fst t' = (fst t)\<lparr>innerRing := np_setPixelColor INNER_RING_LED_COUNT (word_of_int cp) newColor (innerRing (fst t)),
                  currentInnerRing := (currentInnerRing (fst t))(k := newColor)\<rparr>"
      by blast
    from inv have "currentInnerRing (fst t) k = currentInnerRing s0 k" by simp
    with nc inv have nc0: "interpolateColor24bit (currentInnerRing s0 k) (targetInnerRing s0 k) f = Some newColor"
      by simp
    show "targetInnerRing (fst t') = targetInnerRing s0
      \<and> (\<forall>i<Suc k. interpolateColor24bit (currentInnerRing s0 i) (targetInnerRing s0 i) f
                   = Some (currentInnerRing (fst t') i))
      \<and> (\<forall>i\<ge>Suc k. currentInnerRing (fst t') i = currentInnerRing s0 i)"
      using inv nc0 by (simp add: t' less_Suc_eq)
  qed
  then show ?thesis by simp
qed

lemma drawInner_loop_total:
  assumes "for_loop_opt n (drawInnerPixel f) (s0, 0) = Some st" "n \<le> 1000"
  shows "unat (snd st) =
     (\<Sum>i<n. unat (calcEstimatedLEDCurrent (currentInnerRing (fst st) i) (brightnessInnerRing s0)))"
proof -
  have "brightnessInnerRing (fst st) = brightnessInnerRing s0
      \<and> unat (snd st) =
        (\<Sum>i<n. unat (calcEstimatedLEDCurrent (currentInnerRing (fst st) i) (brightnessInnerRing s0)))"
    using assms(1)
  proof (rule for_loop_opt_partial [where I = "\<lambda>k st.
        brightnessInnerRing (fst st) = brightnessInnerRing s0
      \<and> unat (snd st) =
        (\<Sum>i<k. unat (calcEstimatedLEDCurrent (currentInnerRing (fst st) i) (brightnessInnerRing s0)))"])
    show "brightnessInnerRing (fst (s0, 0 :: 16 word)) = brightnessInnerRing s0
      \<and> unat (snd (s0, 0 :: 16 word)) =
        (\<Sum>i<0. unat (calcEstimatedLEDCurrent (currentInnerRing (fst (s0, 0 :: 16 word)) i) (brightnessInnerRing s0)))"
      by simp
  next
    fix k t t'
    assume k: "k < n"
      and inv: "brightnessInnerRing (fst t) = brightnessInnerRing s0
      \<and> unat (snd t) =
        (\<Sum>i<k. unat (calcEstimatedLEDCurrent (currentInnerRing (fst t) i) (brightnessInnerRing s0)))"
      and step: "drawInnerPixel f k t = Some t'"
    from drawInnerPixel_SomeD [OF step] obtain newColor cp where
      t': "fst t' = (fst t)\<lparr>innerRing := np_setPixelColor INNER_RING_LED_COUNT (word_of_int cp) newColor (innerRing (fst t)),
                  currentInnerRing := (currentInnerRing (fst t))(k := newColor)\<rparr>"
      and tot: "snd t' = snd t + calcEstimatedLEDCurrent newColor (brightnessInnerRing (fst t))"
      by blast
    let ?c = "\<lambda>s i. unat (calcEstimatedLEDCurrent (currentInnerRing s i) (brightnessInnerRing s0))"
    have "(\<Sum>i<k. ?c (fst t) i) \<le> (\<Sum>i<k. 60)"
      by (rule sum_mono) (rule calcEstimatedLEDCurrent_le)
    then have b: "unat (snd t) \<le> 60 * k" using inv by simp
    have c: "unat (calcEstimatedLEDCurrent newColor (brightnessInnerRing s0)) \<le> 60"
      by (rule calcEstimatedLEDCurrent_le)
    have "unat (snd t) + unat (calcEstimatedLEDCurrent newColor (brightnessInnerRing s0)) < 2 ^ LENGTH(16)"
      using b c k assms(2) by simp
    then have "unat (snd t + calcEstimatedLEDCurrent newColor (brightnessInnerRing s0))
        = unat (snd t) + unat (calcEstimatedLEDCurrent newColor (brightnessInnerRing s0))"
      by (simp only: unat_add_lem [THEN iffD1])
    moreover have "(\<Sum>i<k. ?c (fst t') i) = (\<Sum>i<k. ?c (fst t) i)"
      by (rule sum.cong) (simp_all add: t')
    moreover have "?c (fst t') k = unat (calcEstimatedLEDCurrent newColor (brightnessInnerRing s0))"
      by (simp add: t')
    ultimately show "brightnessInnerRing (fst t') = brightnessInnerRing s0
      \<and> unat (snd t') =
        (\<Sum>i<Suc k. unat (calcEstimatedLEDCurrent (currentInnerRing (fst t') i) (brightnessInnerRing s0)))"
      using inv tot by (simp add: t')
  qed
  then show ?thesis by simp
qed

text \<open>The loop is defined for a factor from 0 to 1 when the index sum cannot overflow.\<close>

lemma drawInner_loop_defined:
  assumes "0 \<le> f" "f \<le> 1" "int INNER_RING_LED_COUNT + int n + sint (offsetInnerRing s0) \<le> 2147483648"
  shows "\<exists>st. for_loop_opt n (drawInnerPixel f) (s0, t0) = Some st"
proof -
  have "\<exists>st. for_loop_opt n (drawInnerPixel f) (s0, t0) = Some st
            \<and> offsetInnerRing (fst st) = offsetInnerRing s0"
  proof (rule for_loop_opt_total [where I = "\<lambda>k (st :: LEDRings \<times> 16 word).
             offsetInnerRing (fst st) = offsetInnerRing s0"])
    show "offsetInnerRing (fst (s0, t0)) = offsetInnerRing s0" by simp
  next
    fix k and t :: "LEDRings \<times> 16 word"
    assume k: "k < n" and inv: "offsetInnerRing (fst t) = offsetInnerRing s0"
    obtain c where c: "interpolateColor24bit (currentInnerRing (fst t) k) (targetInnerRing (fst t) k) f = Some c"
      using interpolateColor24bit_defined [OF assms(1,2)] by blast
    have "\<not> int INNER_RING_LED_COUNT + int k + sint (offsetInnerRing s0) > 2147483647"
      using k assms(3) by simp
    then show "\<exists>t'. drawInnerPixel f k t = Some t' \<and> offsetInnerRing (fst t') = offsetInnerRing s0"
      using c inv by (simp add: drawInnerPixel_def correctedPixel_def Let_def)
  qed
  then show ?thesis by blast
qed

text \<open>
  The driver's pixels after \<open>n\<close> rounds: a logical pixel whose index sum is not negative
  has its new colour at the slot \<open>(i + offset) mod 12\<close>.
\<close>

lemma drawInner_loop_pixels:
  assumes "for_loop_opt n (drawInnerPixel f) (s0, t0) = Some st" "n \<le> 12"
  shows "\<forall>j<n. 0 \<le> 12 + int j + sint (offsetInnerRing s0) \<longrightarrow>
            np_pixels (innerRing (fst st)) (nat ((int j + sint (offsetInnerRing s0)) mod 12))
              = currentInnerRing (fst st) j"
proof -
  let ?off = "sint (offsetInnerRing s0)"
  have "offsetInnerRing (fst st) = offsetInnerRing s0
      \<and> (\<forall>j<n. 0 \<le> 12 + int j + ?off \<longrightarrow>
            np_pixels (innerRing (fst st)) (nat ((int j + ?off) mod 12)) = currentInnerRing (fst st) j)"
    using assms(1)
  proof (rule for_loop_opt_partial [where I = "\<lambda>k st.
        offsetInnerRing (fst st) = offsetInnerRing s0
      \<and> (\<forall>j<k. 0 \<le> 12 + int j + ?off \<longrightarrow>
            np_pixels (innerRing (fst st)) (nat ((int j + ?off) mod 12)) = currentInnerRing (fst st) j)"])
    show "offsetInnerRing (fst (s0, t0)) = offsetInnerRing s0
      \<and> (\<forall>j<0. 0 \<le> 12 + int j + ?off \<longrightarrow>
            np_pixels (innerRing (fst (s0, t0))) (nat ((int j + ?off) mod 12))
              = currentInnerRing (fst (s0, t0)) j)"
      by simp
  next
    fix k t t'
    assume k: "k < n"
      and inv: "offsetInnerRing (fst t) = offsetInnerRing s0
      \<and> (\<forall>j<k. 0 \<le> 12 + int j + ?off \<longrightarrow>
            np_pixels (innerRing (fst t)) (nat ((int j + ?off) mod 12)) = currentInnerRing (fst t) j)"
      and step: "drawInnerPixel f k t = Some t'"
    from drawInnerPixel_SomeD [OF step] obtain newColor cp where
      cp: "correctedPixel INNER_RING_LED_COUNT k (offsetInnerRing (fst t)) = Some cp"
      and t': "fst t' = (fst t)\<lparr>innerRing := np_setPixelColor INNER_RING_LED_COUNT (word_of_int cp) newColor (innerRing (fst t)),
                  currentInnerRing := (currentInnerRing (fst t))(k := newColor)\<rparr>"
      by blast
    have cpv: "cp = c_rem (12 + int k + ?off) 12"
      using correctedPixel_SomeD [OF cp] inv by (simp add: INNER_RING_LED_COUNT_def)
    have shift: "\<And>j. (12 + int j + ?off) mod 12 = (int j + ?off) mod 12"
      by (simp add: add.assoc)
    have "\<forall>j<Suc k. 0 \<le> 12 + int j + ?off \<longrightarrow>
            np_pixels (innerRing (fst t')) (nat ((int j + ?off) mod 12)) = currentInnerRing (fst t') j"
    proof (intro allI impI)
      fix j assume j: "j < Suc k" and nn: "0 \<le> 12 + int j + ?off"
      show "np_pixels (innerRing (fst t')) (nat ((int j + ?off) mod 12)) = currentInnerRing (fst t') j"
      proof (cases "j = k")
        case True
        then have "cp = (int k + ?off) mod 12"
          using nn cpv by (simp add: c_rem_nonneg shift)
        moreover have "0 \<le> (int k + ?off) mod 12" "(int k + ?off) mod 12 < 12" by simp_all
        ultimately have "unat (word_of_int cp :: 16 word) = nat ((int k + ?off) mod 12)"
          "nat ((int k + ?off) mod 12) < 12"
          by (simp_all add: slot_in_range)
        then show ?thesis using True
          by (simp add: t' np_setPixelColor_def INNER_RING_LED_COUNT_def)
      next
        case False
        then have jk: "j < k" using j by simp
        then have old: "np_pixels (innerRing (fst t)) (nat ((int j + ?off) mod 12)) = currentInnerRing (fst t) j"
          using inv nn by simp
        have nnk: "0 \<le> 12 + int k + ?off" using nn jk by simp
        then have cpk: "cp = (int k + ?off) mod 12" using cpv by (simp add: c_rem_nonneg shift)
        have "(int j + ?off + (int k - int j)) mod 12 \<noteq> (int j + ?off) mod 12"
          using jk k assms(2) by (intro mod_shift_neq) simp_all
        moreover have "int j + ?off + (int k - int j) = int k + ?off" by simp
        ultimately have ne: "(int k + ?off) mod 12 \<noteq> (int j + ?off) mod 12" by metis
        have "0 \<le> (int k + ?off) mod 12" "(int k + ?off) mod 12 < 12" by simp_all
        then have "unat (word_of_int cp :: 16 word) = nat ((int k + ?off) mod 12)"
          by (simp add: cpk slot_in_range)
        moreover have "nat ((int k + ?off) mod 12) \<noteq> nat ((int j + ?off) mod 12)"
          using ne by (simp add: nat_eq_iff)
        ultimately show ?thesis using old False
          by (simp add: t' np_setPixelColor_def)
      qed
    qed
    then show "offsetInnerRing (fst t') = offsetInnerRing s0
      \<and> (\<forall>j<Suc k. 0 \<le> 12 + int j + ?off \<longrightarrow>
            np_pixels (innerRing (fst t')) (nat ((int j + ?off) mod 12)) = currentInnerRing (fst t') j)"
      using inv by (simp add: t')
  qed
  then show ?thesis by simp
qed

text \<open>A slot that no index sum hits keeps its colour.\<close>

lemma drawInner_loop_untouched:
  assumes "for_loop_opt n (drawInnerPixel f) (s0, t0) = Some st"
    and "\<forall>j<n. c_rem (12 + int j + sint (offsetInnerRing s0)) 12 \<noteq> int p"
  shows "np_pixels (innerRing (fst st)) p = np_pixels (innerRing s0) p"
proof -
  let ?off = "sint (offsetInnerRing s0)"
  have "offsetInnerRing (fst st) = offsetInnerRing s0
      \<and> np_pixels (innerRing (fst st)) p = np_pixels (innerRing s0) p"
    using assms(1)
  proof (rule for_loop_opt_partial [where I = "\<lambda>k st.
        offsetInnerRing (fst st) = offsetInnerRing s0
      \<and> np_pixels (innerRing (fst st)) p = np_pixels (innerRing s0) p"])
    show "offsetInnerRing (fst (s0, t0)) = offsetInnerRing s0
      \<and> np_pixels (innerRing (fst (s0, t0))) p = np_pixels (innerRing s0) p"
      by simp
  next
    fix k t t'
    assume k: "k < n"
      and inv: "offsetInnerRing (fst t) = offsetInnerRing s0
      \<and> np_pixels (innerRing (fst t)) p = np_pixels (innerRing s0) p"
      and step: "drawInnerPixel f k t = Some t'"
    from drawInnerPixel_SomeD [OF step] obtain newColor cp where
      cp: "correctedPixel INNER_RING_LED_COUNT k (offsetInnerRing (fst t)) = Some cp"
      and t': "fst t' = (fst t)\<lparr>innerRing := np_setPixelColor INNER_RING_LED_COUNT (word_of_int cp) newColor (innerRing (fst t)),
                  currentInnerRing := (currentInnerRing (fst t))(k := newColor)\<rparr>"
      by blast
    have cpv: "cp = c_rem (12 + int k + ?off) 12"
      using correctedPixel_SomeD [OF cp] inv by (simp add: INNER_RING_LED_COUNT_def)
    then have ne: "cp \<noteq> int p" using assms(2) k by simp
    have "unat (word_of_int cp :: 16 word) < 12 \<Longrightarrow> unat (word_of_int cp :: 16 word) \<noteq> p"
    proof (cases "0 \<le> 12 + int k + ?off")
      case True
      then have "cp = (12 + int k + ?off) mod 12" using cpv by (simp add: c_rem_nonneg)
      then have "0 \<le> cp" "cp < 12" by simp_all
      then have "unat (word_of_int cp :: 16 word) = nat cp" by (simp add: slot_in_range)
      then show "unat (word_of_int cp :: 16 word) \<noteq> p" using ne \<open>0 \<le> cp\<close> by auto
    next
      case False
      then have "cp \<le> 0 \<and> - 12 < cp" using cpv c_rem_neg [of "12 + int k + ?off" 12] by simp
      moreover assume "unat (word_of_int cp :: 16 word) < 12"
      ultimately have "cp = 0" using slot_negative [of cp] by force
      then have "unat (word_of_int cp :: 16 word) = 0" by simp
      then show "unat (word_of_int cp :: 16 word) \<noteq> p" using ne \<open>cp = 0\<close> by auto
    qed
    then show "offsetInnerRing (fst t') = offsetInnerRing s0
      \<and> np_pixels (innerRing (fst t')) p = np_pixels (innerRing s0) p"
      using inv by (auto simp add: t' np_setPixelColor_def INNER_RING_LED_COUNT_def)
  qed
  then show ?thesis by simp
qed

subsection \<open>After both loops\<close>

lemma drawPixels_SomeD:
  assumes "drawPixels f s = Some (s', tO, tI)"
  shows "\<exists>st1 st2. for_loop_opt OUTER_RING_LED_COUNT (drawOuterPixel f) (s, 0) = Some st1
       \<and> for_loop_opt INNER_RING_LED_COUNT (drawInnerPixel f) (fst st1, 0) = Some st2
       \<and> s' = fst st2 \<and> tO = snd st1 \<and> tI = snd st2"
  using assms unfolding drawPixels_def by (auto split: option.splits)

text \<open>The state after the two loops, and the two totals.\<close>

lemma drawPixels_frame:
  assumes "drawPixels f s = Some (s', tO, tI)"
  shows "targetOuterring s' = targetOuterring s \<and> targetInnerRing s' = targetInnerRing s
       \<and> logger s' = logger s \<and> currentLimit s' = currentLimit s
       \<and> brightnessOuterRing s' = brightnessOuterRing s
       \<and> brightnessInnerRing s' = brightnessInnerRing s
       \<and> offsetOuterRing s' = offsetOuterRing s \<and> offsetInnerRing s' = offsetInnerRing s
       \<and> np_brightness (outerRing s') = np_brightness (outerRing s)
       \<and> np_brightness (innerRing s') = np_brightness (innerRing s)
       \<and> np_shows (outerRing s') = np_shows (outerRing s)
       \<and> np_shows (innerRing s') = np_shows (innerRing s)"
proof -
  from drawPixels_SomeD [OF assms] obtain st1 st2 where
    l1: "for_loop_opt OUTER_RING_LED_COUNT (drawOuterPixel f) (s, 0) = Some st1"
    and l2: "for_loop_opt INNER_RING_LED_COUNT (drawInnerPixel f) (fst st1, 0) = Some st2"
    and s': "s' = fst st2" by blast
  show ?thesis
    using drawOuter_loop_frame [OF l1] drawInner_loop_frame [OF l2] by (simp add: s')
qed

lemma drawPixels_current:
  assumes "drawPixels f s = Some (s', tO, tI)"
  shows "(\<forall>i<91. interpolateColor24bit (currentOuterRing s i) (targetOuterring s i) f
                   = Some (currentOuterRing s' i))
       \<and> (\<forall>i<12. interpolateColor24bit (currentInnerRing s i) (targetInnerRing s i) f
                   = Some (currentInnerRing s' i))"
proof -
  from drawPixels_SomeD [OF assms] obtain st1 st2 where
    l1: "for_loop_opt OUTER_RING_LED_COUNT (drawOuterPixel f) (s, 0) = Some st1"
    and l2: "for_loop_opt INNER_RING_LED_COUNT (drawInnerPixel f) (fst st1, 0) = Some st2"
    and s': "s' = fst st2" by blast
  show ?thesis
    using drawOuter_loop_frame [OF l1] drawInner_loop_frame [OF l2]
      drawOuter_loop_current [OF l1] drawInner_loop_current [OF l2]
    by (simp add: s' OUTER_RING_LED_COUNT_def INNER_RING_LED_COUNT_def)
qed

lemma drawPixels_totals:
  assumes "drawPixels f s = Some (s', tO, tI)"
  shows "unat tO = (\<Sum>i<OUTER_RING_LED_COUNT.
                      unat (calcEstimatedLEDCurrent (currentOuterRing s' i) (brightnessOuterRing s')))
       \<and> unat tI = (\<Sum>i<INNER_RING_LED_COUNT.
                      unat (calcEstimatedLEDCurrent (currentInnerRing s' i) (brightnessInnerRing s')))"
proof -
  from drawPixels_SomeD [OF assms] obtain st1 st2 where
    l1: "for_loop_opt OUTER_RING_LED_COUNT (drawOuterPixel f) (s, 0) = Some st1"
    and l2: "for_loop_opt INNER_RING_LED_COUNT (drawInnerPixel f) (fst st1, 0) = Some st2"
    and s': "s' = fst st2" "tO = snd st1" "tI = snd st2" by blast
  have "OUTER_RING_LED_COUNT \<le> 1000" "INNER_RING_LED_COUNT \<le> 1000"
    by (simp_all add: OUTER_RING_LED_COUNT_def INNER_RING_LED_COUNT_def)
  then show ?thesis
    using drawOuter_loop_frame [OF l1] drawInner_loop_frame [OF l2]
      drawOuter_loop_total [OF l1] drawInner_loop_total [OF l2]
    by (simp add: s')
qed

lemma sum_le_60: "(\<Sum>i<n. unat (calcEstimatedLEDCurrent (c i) b)) \<le> 60 * n"
proof -
  have "(\<Sum>i<n. unat (calcEstimatedLEDCurrent (c i) b)) \<le> (\<Sum>i<n. 60)"
    by (rule sum_mono) (rule calcEstimatedLEDCurrent_le)
  then show ?thesis by simp
qed

lemma drawPixels_no_wrap:
  assumes "drawPixels f s = Some (s', tO, tI)"
  shows "unat (tO + tI) = totalEstimate s' \<and> totalEstimate s' \<le> 6180"
proof -
  note t = drawPixels_totals [OF assms]
  have o: "unat tO \<le> 60 * 91" using t sum_le_60 [of "currentOuterRing s'" "brightnessOuterRing s'" 91]
    by (simp add: OUTER_RING_LED_COUNT_def)
  have i: "unat tI \<le> 60 * 12" using t sum_le_60 [of "currentInnerRing s'" "brightnessInnerRing s'" 12]
    by (simp add: INNER_RING_LED_COUNT_def)
  have "unat tO + unat tI < 2 ^ LENGTH(16)" using o i by simp
  then have "unat (tO + tI) = unat tO + unat tI" by (simp only: unat_add_lem [THEN iffD1])
  then show ?thesis using t o i by (simp add: totalEstimate_def)
qed

lemma drawPixels_defined:
  assumes "0 \<le> f" "f \<le> 1" "sint (offsetOuterRing s) \<le> 2147483466"
    "sint (offsetInnerRing s) \<le> 2147483624"
  shows "\<exists>s' tO tI. drawPixels f s = Some (s', tO, tI)"
proof -
  have "int OUTER_RING_LED_COUNT + int OUTER_RING_LED_COUNT + sint (offsetOuterRing s) \<le> 2147483648"
    using assms(3) by (simp add: OUTER_RING_LED_COUNT_def)
  then obtain st1 where l1: "for_loop_opt OUTER_RING_LED_COUNT (drawOuterPixel f) (s, 0) = Some st1"
    using drawOuter_loop_defined [OF assms(1,2)] by blast
  have "offsetInnerRing (fst st1) = offsetInnerRing s"
    using drawOuter_loop_frame [OF l1] by simp
  then have "int INNER_RING_LED_COUNT + int INNER_RING_LED_COUNT + sint (offsetInnerRing (fst st1)) \<le> 2147483648"
    using assms(4) by (simp add: INNER_RING_LED_COUNT_def)
  then obtain st2 where "for_loop_opt INNER_RING_LED_COUNT (drawInnerPixel f) (fst st1, 0) = Some st2"
    using drawInner_loop_defined [OF assms(1,2)] by blast
  with l1 show ?thesis by (simp add: drawPixels_def)
qed

subsection \<open>The throttled brightness\<close>

text \<open>
  The quotient of two small integers, rounded to \<open>float\<close> and truncated, is the integer
  quotient: the distance of an exact quotient \<open>P / T\<close> to the next integer is at least
  \<open>1 / T\<close>, more than the rounding error of a \<open>float\<close> below 256.
\<close>

lemma fl32_quotient_floor:
  fixes P T :: int
  assumes "0 \<le> P" "0 < T" "T < 65536" "P < 256 * T"
  shows "\<lfloor>fl32 (of_int P / of_int T)\<rfloor> = P div T"
proof -
  define x :: rat where "x = of_int P / of_int T"
  define n where "n = P div T"
  have Tr: "(0::rat) < of_int T" using assms(2) by simp
  have x0: "0 \<le> x" using assms(1,2) by (simp add: x_def)
  have x256: "x < 256" using assms(4) Tr
  proof -
    have "(of_int P :: rat) < of_int (256 * T)" using assms(4) by (simp only: of_int_less_iff)
    then show ?thesis using Tr by (simp add: x_def divide_less_eq)
  qed
  have dm: "n * T + P mod T = P" unfolding n_def by simp
  have m0: "0 \<le> P mod T" and m1: "P mod T < T" using assms(2) by simp_all
  have nx: "of_int n \<le> x"
  proof -
    have "n * T \<le> P" using dm m0 by linarith
    then have "(of_int (n * T) :: rat) \<le> of_int P" by (simp only: of_int_le_iff)
    then show ?thesis using Tr by (simp add: x_def le_divide_eq)
  qed
  have xn: "x \<le> of_int (n + 1) - 1 / of_int T"
  proof -
    have "(n + 1) * T = n * T + T" by (simp add: algebra_simps)
    then have "P + 1 \<le> (n + 1) * T" using dm m1 by linarith
    then have "(of_int (P + 1) :: rat) \<le> of_int ((n + 1) * T)" by (simp only: of_int_le_iff)
    then have "(of_int P :: rat) \<le> of_int (n + 1) * of_int T - 1" by simp
    then have "x \<le> (of_int (n + 1) * of_int T - 1) / of_int T"
      using Tr by (simp add: x_def divide_right_mono)
    also have "\<dots> = of_int (n + 1) - 1 / of_int T" using Tr by (simp add: diff_divide_distrib)
    finally show ?thesis .
  qed
  have xa: "\<bar>x\<bar> < 16777216" using x0 x256 by simp
  have lo: "of_int n \<le> fl32 x" using xa nx by (rule fl32_ge_int)
  have hi: "fl32 x < of_int (n + 1)"
  proof (cases "x = 0")
    case True
    then have "fl32 x = 0" by (simp add: fl32_def fround_def)
    moreover have "0 \<le> n" using assms(1,2) by (simp add: n_def pos_imp_zdiv_nonneg_iff)
    ultimately show ?thesis by simp
  next
    case False
    have "\<bar>x\<bar> < 2 powi (7 + 1)" using x0 x256 by simp
    then obtain k where k: "int 24 - 1 - 7 \<le> int k"
      and fx: "fround 24 (- 126) x = of_int (rne (x * 2 ^ k)) / 2 ^ k"
      using fround_scaled [of x 7 "- 126" 24] False by auto
    have k16: "16 \<le> k" using k by simp
    have "of_int (rne (x * 2 ^ k)) \<le> x * 2 ^ k + 1 / 2" by (rule rne_upper)
    then have "of_int (rne (x * 2 ^ k)) / 2 ^ k \<le> (x * 2 ^ k + 1 / 2) / 2 ^ k"
      by (simp add: divide_right_mono)
    also have "\<dots> = x + 1 / 2 ^ (k + 1)" by (simp add: add_divide_distrib)
    finally have e: "fl32 x \<le> x + 1 / 2 ^ (k + 1)" by (simp only: fl32_def fx)
    have "(2::rat) ^ 17 \<le> 2 ^ (k + 1)" using k16 by (intro power_increasing) simp_all
    moreover have "(of_int T :: rat) < 2 ^ 17"
    proof -
      have "(of_int T :: rat) < of_int 65536" using assms(3) by (simp only: of_int_less_iff)
      then show ?thesis by simp
    qed
    ultimately have "(of_int T :: rat) < 2 ^ (k + 1)" by simp
    then have "1 / (2::rat) ^ (k + 1) < 1 / of_int T"
      using Tr by (simp add: frac_less2)
    with e xn show ?thesis by linarith
  qed
  have "\<lfloor>fl32 x\<rfloor> = n" using lo hi by (simp add: floor_eq_iff)
  then show ?thesis by (simp only: x_def n_def)
qed

lemma reduced_int:
  fixes B L T :: int
  assumes "0 \<le> B" "B \<le> 255" "0 \<le> L" "L < T" "T < 65536"
  shows "float_to_uint8 (fl32 (fl32 (of_int B * of_int L) / of_int T))
           = Some (word_of_int (B * L div T))
       \<and> 0 \<le> B * L div T \<and> B * L div T \<le> B"
proof -
  define P where "P = B * L"
  have T0: "0 < T" using assms(3,4) by simp
  have P0: "0 \<le> P" using assms(1,3) by (simp add: P_def)
  have "B * L \<le> 255 * L" using assms(2,3) by (rule mult_right_mono)
  then have PL: "P \<le> 255 * L" by (simp add: P_def)
  then have Pb: "\<bar>P\<bar> < 16777216" using P0 assms(4,5) by simp
  have PT: "P < 256 * T" using PL assms(3,4) by simp
  have "fl32 (of_int B * of_int L) = fl32 (of_int P)" by (simp add: P_def)
  also have "\<dots> = of_int P" using Pb by (rule fl32_of_int)
  finally have prod: "fl32 (of_int B * of_int L) = of_int P" .
  define y where "y = fl32 (of_int P / of_int T)"
  have fl: "\<lfloor>y\<rfloor> = P div T"
    unfolding y_def using P0 T0 assms(5) PT by (rule fl32_quotient_floor)
  have q0: "(0::rat) \<le> of_int P / of_int T" using P0 T0 by simp
  have "(of_int P :: rat) < of_int (256 * T)" using PT by (simp only: of_int_less_iff)
  then have q1: "(of_int P :: rat) / of_int T < 256" using T0 by (simp add: divide_less_eq)
  have "of_int 0 \<le> fl32 (of_int P / of_int T)"
    using q0 q1 by (intro fl32_ge_int) simp_all
  then have y0: "0 \<le> y" by (simp add: y_def)
  have d0: "0 \<le> P div T" using P0 T0 by (simp add: pos_imp_zdiv_nonneg_iff)
  have "B * L \<le> B * T" using assms(1,4) by (intro mult_left_mono) simp_all
  then have "P div T \<le> B * T div T" unfolding P_def using T0 by (intro zdiv_mono1)
  then have dB: "P div T \<le> B" using T0 by simp
  have "truncate_rat y = P div T" using y0 fl by (simp add: truncate_rat_nonneg)
  moreover have "P div T \<le> 255" using dB assms(2) by simp
  ultimately have "float_to_uint8 y = Some (word_of_int (P div T))"
    using d0 by (simp add: float_to_uint8_def Let_def)
  then show ?thesis using d0 dB by (simp only: y_def prod P_def simp_thms)
qed

lemma reducedBrightness_eq:
  assumes "L < Tot"
  shows "reducedBrightness b L Tot = Some (word_of_nat (unat b * unat L div unat Tot))
       \<and> word_of_nat (unat b * unat L div unat Tot) \<le> b"
proof -
  have lt: "uint L < uint Tot" using assms by (simp add: word_less_def)
  have T: "uint Tot < 65536" using uint_bounded [of Tot] by simp
  note r = reduced_int [OF uint_ge_0 uint_u8_le uint_ge_0 lt T, of b]
  have e: "uint b * uint L div uint Tot = int (unat b * unat L div unat Tot)"
    by (simp only: uint_nat of_nat_mult zdiv_int)
  have w: "(word_of_int (uint b * uint L div uint Tot) :: 8 word)
      = word_of_nat (unat b * unat L div unat Tot)"
    by (simp only: e word_of_int_nat of_nat_0_le_iff nat_int)
  from r have "uint b * uint L div uint Tot \<le> uint b" by (simp only:)
  then have "int (unat b * unat L div unat Tot) \<le> uint b" by (simp only: e)
  then have le: "unat b * unat L div unat Tot \<le> unat b"
    by (simp only: uint_nat of_nat_le_iff)
  then have "unat b * unat L div unat Tot < 2 ^ LENGTH(8)"
    using unat_u8_le [of b] by simp
  then have "unat (word_of_nat (unat b * unat L div unat Tot) :: 8 word)
      = unat b * unat L div unat Tot"
    by (simp only: unat_of_nat) simp
  then have "(word_of_nat (unat b * unat L div unat Tot) :: 8 word) \<le> b"
    using le by (simp add: word_le_nat_alt)
  moreover have "reducedBrightness b L Tot
      = Some (word_of_int (uint b * uint L div uint Tot))"
    unfolding reducedBrightness_def using r by (rule conjunct1)
  ultimately show ?thesis by (simp only: w simp_thms)
qed

lemma drawOnRings_SomeD:
  assumes "drawOnRings f s = Some s''"
  shows "\<exists>s' tO tI nO nI. drawPixels f s = Some (s', tO, tI)
       \<and> s'' = s'\<lparr>outerRing := np_show (np_setBrightness nO (outerRing s')),
                  innerRing := np_show (np_setBrightness nI (innerRing s'))\<rparr>
       \<and> (if tO + tI > currentLimit s'
           then reducedBrightness (brightnessOuterRing s') (currentLimit s') (tO + tI) = Some nO
              \<and> reducedBrightness (brightnessInnerRing s') (currentLimit s') (tO + tI) = Some nI
           else nO = brightnessOuterRing s' \<and> nI = brightnessInnerRing s')"
  using assms unfolding drawOnRings_def Let_def
  by (auto split: option.splits if_splits)

lemma totalEstimate_drivers [simp]:
  "totalEstimate (s\<lparr>outerRing := x, innerRing := y\<rparr>) = totalEstimate s"
  by (simp add: totalEstimate_def)

lemma brightness_throttle_frame:
  assumes "drawOnRings factor s = Some s'"
  shows "np_brightness (outerRing s') =
           (if unat (currentLimit s) < totalEstimate s'
            then word_of_nat (unat (brightnessOuterRing s) * unat (currentLimit s) div totalEstimate s')
            else brightnessOuterRing s)
       \<and> np_brightness (innerRing s') =
           (if unat (currentLimit s) < totalEstimate s'
            then word_of_nat (unat (brightnessInnerRing s) * unat (currentLimit s) div totalEstimate s')
            else brightnessInnerRing s)
       \<and> np_brightness (outerRing s') \<le> brightnessOuterRing s
       \<and> np_brightness (innerRing s') \<le> brightnessInnerRing s
       \<and> getBrightnessOuterRing s' = getBrightnessOuterRing s
       \<and> getBrightnessInnerRing s' = getBrightnessInnerRing s"
proof -
  from drawOnRings_SomeD [OF assms] obtain s1 tO tI nO nI where
    dp: "drawPixels factor s = Some (s1, tO, tI)"
    and s': "s' = s1\<lparr>outerRing := np_show (np_setBrightness nO (outerRing s1)),
                  innerRing := np_show (np_setBrightness nI (innerRing s1))\<rparr>"
    and br: "if tO + tI > currentLimit s1
           then reducedBrightness (brightnessOuterRing s1) (currentLimit s1) (tO + tI) = Some nO
              \<and> reducedBrightness (brightnessInnerRing s1) (currentLimit s1) (tO + tI) = Some nI
           else nO = brightnessOuterRing s1 \<and> nI = brightnessInnerRing s1"
    by blast
  note fr = drawPixels_frame [OF dp]
  note nw = drawPixels_no_wrap [OF dp]
  have te: "totalEstimate s' = unat (tO + tI)" using nw by (simp add: s')
  have cmp: "(unat (currentLimit s) < totalEstimate s') = (tO + tI > currentLimit s1)"
    using fr by (simp add: te word_less_nat_alt)
  have nb: "np_brightness (outerRing s') = nO" "np_brightness (innerRing s') = nI"
    by (simp_all add: s' np_show_def np_setBrightness_def)
  have keep: "brightnessOuterRing s' = brightnessOuterRing s" "brightnessInnerRing s' = brightnessInnerRing s"
    using fr by (simp_all add: s')
  show ?thesis
  proof (cases "tO + tI > currentLimit s1")
    case True
    then have "reducedBrightness (brightnessOuterRing s) (currentLimit s) (tO + tI) = Some nO"
      "reducedBrightness (brightnessInnerRing s) (currentLimit s) (tO + tI) = Some nI"
      using br fr by simp_all
    moreover have "currentLimit s < tO + tI" using True fr by simp
    ultimately have
      "nO = word_of_nat (unat (brightnessOuterRing s) * unat (currentLimit s) div unat (tO + tI))"
      "nO \<le> brightnessOuterRing s"
      "nI = word_of_nat (unat (brightnessInnerRing s) * unat (currentLimit s) div unat (tO + tI))"
      "nI \<le> brightnessInnerRing s"
      using reducedBrightness_eq [of "currentLimit s" "tO + tI" "brightnessOuterRing s"]
        reducedBrightness_eq [of "currentLimit s" "tO + tI" "brightnessInnerRing s"]
      by simp_all
    then show ?thesis using True cmp keep
      by (simp add: nb te getBrightnessOuterRing_def getBrightnessInnerRing_def)
  next
    case False
    then have "nO = brightnessOuterRing s" "nI = brightnessInnerRing s" using br fr by simp_all
    then show ?thesis using False cmp keep
      by (simp add: nb getBrightnessOuterRing_def getBrightnessInnerRing_def)
  qed
qed

text \<open>
  C10: every pixel contributes at most 60 mA, so the total over the 103 pixels computed
  in \<open>drawOnRings\<close> is at most 6180 mA: neither 16-bit accumulation nor their sum
  wraps, and with the default limit of 9999 mA the throttling branch is not taken.
\<close>

theorem total_current_no_wrap:
  assumes "drawPixels factor s = Some (s', totalCurrentOuterRing, totalCurrentInnerRing)"
  shows "(\<forall>color b. unat (calcEstimatedLEDCurrent color b) \<le> 60)
       \<and> unat totalCurrentOuterRing + unat totalCurrentInnerRing = totalEstimate s'
       \<and> unat (totalCurrentOuterRing + totalCurrentInnerRing) = totalEstimate s'
       \<and> totalEstimate s' \<le> 6180
       \<and> (currentLimit s = DEFAULT_CURRENT_LIMIT \<longrightarrow>
            \<not> totalCurrentOuterRing + totalCurrentInnerRing > currentLimit s'
            \<and> drawOnRings factor s =
                Some (s'\<lparr>outerRing := np_show (np_setBrightness (brightnessOuterRing s') (outerRing s')),
                         innerRing := np_show (np_setBrightness (brightnessInnerRing s') (innerRing s'))\<rparr>))"
proof -
  note fr = drawPixels_frame [OF assms]
  note nw = drawPixels_no_wrap [OF assms]
  note t = drawPixels_totals [OF assms]
  have sum: "unat totalCurrentOuterRing + unat totalCurrentInnerRing = totalEstimate s'"
    using t by (simp add: totalEstimate_def)
  have "currentLimit s = DEFAULT_CURRENT_LIMIT \<Longrightarrow>
      \<not> totalCurrentOuterRing + totalCurrentInnerRing > currentLimit s'"
    using nw fr by (simp add: DEFAULT_CURRENT_LIMIT_def word_less_nat_alt)
  then show ?thesis
    using nw sum assms calcEstimatedLEDCurrent_le by (auto simp add: drawOnRings_def Let_def)
qed

lemma LEDRings_new_offsets:
  "sint (offsetOuterRing LEDRings_new) = 0" "sint (offsetInnerRing LEDRings_new) = 0"
  by (simp_all add: LEDRings_new_def)

theorem total_current_no_wrap_witness:
  "\<exists>s' tO tI. drawPixels 1 LEDRings_new = Some (s', tO, tI)
     \<and> unat (tO + tI) = totalEstimate s' \<and> totalEstimate s' \<le> 6180
     \<and> currentLimit LEDRings_new = DEFAULT_CURRENT_LIMIT
     \<and> \<not> tO + tI > currentLimit s'"
proof -
  obtain s' tO tI where dp: "drawPixels 1 LEDRings_new = Some (s', tO, tI)"
    using drawPixels_defined [of 1 LEDRings_new] by (auto simp add: LEDRings_new_offsets)
  have "currentLimit LEDRings_new = DEFAULT_CURRENT_LIMIT" by (simp add: LEDRings_new_def)
  then show ?thesis using dp total_current_no_wrap [OF dp] by blast
qed

lemma drawOnRings_defined:
  assumes "0 \<le> f" "f \<le> 1" "sint (offsetOuterRing s) \<le> 2147483466"
    "sint (offsetInnerRing s) \<le> 2147483624"
  shows "\<exists>s'. drawOnRings f s = Some s'"
proof -
  obtain s1 tO tI where dp: "drawPixels f s = Some (s1, tO, tI)"
    using drawPixels_defined [OF assms] by blast
  show ?thesis
  proof (cases "tO + tI > currentLimit s1")
    case True
    then show ?thesis
      using dp reducedBrightness_eq [of "currentLimit s1" "tO + tI"]
      by (simp add: drawOnRings_def Let_def)
  next
    case False
    then show ?thesis using dp by (simp add: drawOnRings_def Let_def)
  qed
qed

text \<open>
  C1: \<open>drawOnRings\<close> draws a frame for every factor from 0 to 1 (the index sums not
  overflowing), and for every frame it draws: when the summed current estimate over
  both rings exceeds the configured limit, the brightness handed to each ring's driver is
  that ring's configured brightness times limit / total, truncated (the same ratio for
  both rings); otherwise it is the configured brightness. It never exceeds the
  configured brightness, and the stored brightness fields are unchanged.
\<close>

theorem brightness_throttle:
  "(0 \<le> factor \<and> factor \<le> 1 \<and> sint (offsetOuterRing s) \<le> 2147483466
      \<and> sint (offsetInnerRing s) \<le> 2147483624 \<longrightarrow>
      (\<exists>s'. drawOnRings factor s = Some s'))
   \<and> (\<forall>s'. drawOnRings factor s = Some s' \<longrightarrow>
         np_brightness (outerRing s') =
           (if unat (currentLimit s) < totalEstimate s'
            then word_of_nat (unat (brightnessOuterRing s) * unat (currentLimit s) div totalEstimate s')
            else brightnessOuterRing s)
       \<and> np_brightness (innerRing s') =
           (if unat (currentLimit s) < totalEstimate s'
            then word_of_nat (unat (brightnessInnerRing s) * unat (currentLimit s) div totalEstimate s')
            else brightnessInnerRing s)
       \<and> np_brightness (outerRing s') \<le> brightnessOuterRing s
       \<and> np_brightness (innerRing s') \<le> brightnessInnerRing s
       \<and> getBrightnessOuterRing s' = getBrightnessOuterRing s
       \<and> getBrightnessInnerRing s' = getBrightnessInnerRing s)"
  using drawOnRings_defined [of factor s] brightness_throttle_frame [of factor s]
  by blast

subsection \<open>Drawing: the current buffers\<close>

lemma drawOnRings_result:
  assumes "drawOnRings f s = Some s'"
  shows "targetOuterring s' = targetOuterring s \<and> targetInnerRing s' = targetInnerRing s
       \<and> (\<forall>i<91. interpolateColor24bit (currentOuterRing s i) (targetOuterring s i) f
                   = Some (currentOuterRing s' i))
       \<and> (\<forall>i<12. interpolateColor24bit (currentInnerRing s i) (targetInnerRing s i) f
                   = Some (currentInnerRing s' i))"
proof -
  from drawOnRings_SomeD [OF assms] obtain s1 tO tI nO nI where
    dp: "drawPixels f s = Some (s1, tO, tI)"
    and s': "s' = s1\<lparr>outerRing := np_show (np_setBrightness nO (outerRing s1)),
                  innerRing := np_show (np_setBrightness nI (innerRing s1))\<rparr>"
    by blast
  show ?thesis
    using drawPixels_frame [OF dp] drawPixels_current [OF dp] by (simp add: s')
qed

lemma low24_Color24bit:
  "Color24bit (ucast (drop_bit 16 c AND 0xFF)) (ucast (drop_bit 8 c AND 0xFF)) (ucast (c AND 0xFF))
     = take_bit 24 c"
proof (rule bit_word_eqI)
  fix n assume "n < LENGTH(32)"
  consider "n < 8" | "8 \<le> n" "n < 16" | "16 \<le> n" "n < 24" | "24 \<le> n" by linarith
  then show "bit (Color24bit (ucast (drop_bit 16 c AND 0xFF)) (ucast (drop_bit 8 c AND 0xFF))
                    (ucast (c AND 0xFF))) n = bit (take_bit 24 c) n"
  proof cases
    case 1
    then show ?thesis
      unfolding Color24bit_def ff_mask by (auto simp add: bit_simps)
  next
    case 2
    then have "8 + (n - 8) = n" by simp
    with 2 show ?thesis
      unfolding Color24bit_def ff_mask by (auto simp add: bit_simps)
  next
    case 3
    then have "16 + (n - 16) = n" by simp
    with 3 show ?thesis
      unfolding Color24bit_def ff_mask by (auto simp add: bit_simps)
  next
    case 4
    then show ?thesis
      unfolding Color24bit_def ff_mask by (auto simp add: bit_simps)
  qed
qed

lemma interpolateColor24bit_one: "interpolateColor24bit c1 c2 1 = Some (take_bit 24 c2)"
  by (simp only: interpolateColor24bit_def Let_def interpolateChannel_one option.case
      low24_Color24bit)

lemma take_bit_24_id: "c \<le> 0xFFFFFF \<Longrightarrow> take_bit 24 c = (c :: 32 word)"
proof -
  assume "c \<le> 0xFFFFFF"
  then have "c < 2 ^ 24" by (simp add: word_le_nat_alt word_less_nat_alt)
  then have "c AND mask 24 = c" by (rule less_mask_eq)
  then show ?thesis by (simp only: take_bit_eq_mask)
qed

lemma drawOnRingsInstant_low24:
  assumes "sint (offsetOuterRing s) \<le> 2147483466" "sint (offsetInnerRing s) \<le> 2147483624"
  shows "\<exists>s'. drawOnRingsInstant s = Some s'
       \<and> targetOuterring s' = targetOuterring s \<and> targetInnerRing s' = targetInnerRing s
       \<and> (\<forall>i<91. currentOuterRing s' i = take_bit 24 (targetOuterring s i))
       \<and> (\<forall>i<12. currentInnerRing s' i = take_bit 24 (targetInnerRing s i))"
proof -
  obtain s' where d: "drawOnRings 1 s = Some s'"
    using drawOnRings_defined [of 1 s] assms by auto
  show ?thesis
    using d drawOnRings_result [OF d]
    by (auto simp add: drawOnRingsInstant_def interpolateColor24bit_one)
qed

lemma Color24bit_is_24bit: "Color24bit r g b \<le> 0xFFFFFF"
proof -
  have "take_bit 24 (Color24bit r g b) = Color24bit r g b"
    using low24_Color24bit [of "Color24bit r g b"]
    by (simp only: red_Color24bit green_Color24bit blue_Color24bit)
  then have e: "Color24bit r g b AND mask 24 = Color24bit r g b"
    by (simp only: take_bit_eq_mask)
  have "Color24bit r g b AND mask 24 < 2 ^ 24"
    by (rule and_mask_less') simp
  then have "Color24bit r g b < 2 ^ 24" by (simp only: e)
  then show ?thesis by (simp add: word_le_nat_alt word_less_nat_alt)
qed

text \<open>
  C5: whatever the current buffers held before, and for target buffers of 24-bit
  colours, a single call of \<open>drawOnRingsInstant\<close> returns and leaves every entry of each
  ring's current buffer equal to the corresponding entry of its target buffer (the call
  is defined when the index sums do not overflow).
\<close>

theorem drawOnRingsInstant_current:
  assumes "sint (offsetOuterRing s) \<le> 2147483466" "sint (offsetInnerRing s) \<le> 2147483624"
    and "\<forall>i<91. targetOuterring s i \<le> 0xFFFFFF" "\<forall>i<12. targetInnerRing s i \<le> 0xFFFFFF"
  shows "\<exists>s'. drawOnRingsInstant s = Some s'
       \<and> targetOuterring s' = targetOuterring s \<and> targetInnerRing s' = targetInnerRing s
       \<and> (\<forall>i<91. currentOuterRing s' i = targetOuterring s' i)
       \<and> (\<forall>i<12. currentInnerRing s' i = targetInnerRing s' i)"
proof -
  from drawOnRingsInstant_low24 [OF assms(1,2)] obtain s' where
    d: "drawOnRingsInstant s = Some s'"
    and t: "targetOuterring s' = targetOuterring s" "targetInnerRing s' = targetInnerRing s"
    and o: "\<forall>i<91. currentOuterRing s' i = take_bit 24 (targetOuterring s i)"
    and i: "\<forall>i<12. currentInnerRing s' i = take_bit 24 (targetInnerRing s i)"
    by blast
  have "\<forall>i<91. currentOuterRing s' i = targetOuterring s' i"
    using o assms(3) by (simp add: t take_bit_24_id)
  moreover have "\<forall>i<12. currentInnerRing s' i = targetInnerRing s' i"
    using i assms(4) by (simp add: t take_bit_24_id)
  ultimately show ?thesis using d t by blast
qed

text \<open>Hour 3 written on the fresh object: current pixel 2 goes from black to the colour.\<close>

theorem drawOnRingsInstant_current_witness:
  "sint (offsetOuterRing (showHour 3 (Color24bit 200 200 0) LEDRings_new)) \<le> 2147483466
   \<and> sint (offsetInnerRing (showHour 3 (Color24bit 200 200 0) LEDRings_new)) \<le> 2147483624
   \<and> targetOuterring (showHour 3 (Color24bit 200 200 0) LEDRings_new) = (\<lambda>i. 0)
   \<and> targetInnerRing (showHour 3 (Color24bit 200 200 0) LEDRings_new)
       = (\<lambda>i. if i = 2 then Color24bit 200 200 0 else 0)
   \<and> Color24bit 200 200 0 \<le> 0xFFFFFF
   \<and> currentInnerRing (showHour 3 (Color24bit 200 200 0) LEDRings_new) 2 = 0
   \<and> (\<exists>s'. drawOnRingsInstant (showHour 3 (Color24bit 200 200 0) LEDRings_new) = Some s'
          \<and> (\<forall>i<91. currentOuterRing s' i = targetOuterring s' i)
          \<and> (\<forall>i<12. currentInnerRing s' i = targetInnerRing s' i)
          \<and> currentInnerRing s' 2 = Color24bit 200 200 0)"
proof -
  let ?s = "showHour 3 (Color24bit 200 200 0) LEDRings_new"
  have sh: "?s = setPixelInnerRing 2 (Color24bit 200 200 0) (flushInnerRing LEDRings_new)"
    by (simp add: showHour_unfold)
  have ti: "targetInnerRing ?s = (\<lambda>i. if i = 2 then Color24bit 200 200 0 else 0)"
    unfolding sh by (auto simp add: setPixelInner_flushed LEDRings_new_def fun_eq_iff)
  have rest: "targetOuterring ?s = (\<lambda>i. 0)" "currentInnerRing ?s = (\<lambda>i. 0)"
    "offsetOuterRing ?s = 0" "offsetInnerRing ?s = 0"
    unfolding sh
    by (simp_all add: setPixelInnerRing_def flushInnerRing_eq INNER_RING_LED_COUNT_def
        LEDRings_new_def)
  have h: "sint (offsetOuterRing ?s) \<le> 2147483466" "sint (offsetInnerRing ?s) \<le> 2147483624"
    "\<forall>i<91. targetOuterring ?s i \<le> 0xFFFFFF" "\<forall>i<12. targetInnerRing ?s i \<le> 0xFFFFFF"
    by (simp_all add: rest ti Color24bit_is_24bit)
  from drawOnRingsInstant_current [OF h] obtain s' where
    "drawOnRingsInstant ?s = Some s'" "targetInnerRing s' = targetInnerRing ?s"
    "\<forall>i<91. currentOuterRing s' i = targetOuterring s' i"
    "\<forall>i<12. currentInnerRing s' i = targetInnerRing s' i"
    by blast
  moreover from this have "currentInnerRing s' 2 = Color24bit 200 200 0" by (simp add: ti)
  moreover have "currentInnerRing ?s 2 = 0" by (simp only: rest)
  ultimately show ?thesis using h(1,2) rest(1) ti Color24bit_is_24bit [of 200 200 0]
    by (intro conjI exI [of _ s'])
qed

subsection \<open>An over-budget frame\<close>

lemma current_of_white: "unat (calcEstimatedLEDCurrent 0xFFFFFF 255) = 60"
  by (simp add: calcEstimatedLEDCurrent_unat)

lemma current_of_black: "unat (calcEstimatedLEDCurrent 0 b) = 0"
  by (simp add: calcEstimatedLEDCurrent_unat)

text \<open>
  One white pixel at full brightness is estimated at 60 mA. With the limit set to 10 mA
  and the inner ring configured to brightness 100, the drivers get 255 * 10 / 60 = 42
  and 100 * 10 / 60 = 16, and the configured values stay 255 and 100.
\<close>

theorem brightness_throttle_witness:
  "(0::rat) \<le> 1 \<and> (1::rat) \<le> 1
   \<and> sint (offsetOuterRing (setCurrentLimit 10 (setBrightnessInnerRing 100
          (setPixelOuterRing 0 0xFFFFFF LEDRings_new)))) \<le> 2147483466
   \<and> sint (offsetInnerRing (setCurrentLimit 10 (setBrightnessInnerRing 100
          (setPixelOuterRing 0 0xFFFFFF LEDRings_new)))) \<le> 2147483624
   \<and> (\<exists>s'. drawOnRings 1 (setCurrentLimit 10 (setBrightnessInnerRing 100
                (setPixelOuterRing 0 0xFFFFFF LEDRings_new))) = Some s'
        \<and> totalEstimate s' = 60
        \<and> np_brightness (outerRing s') = 42 \<and> np_brightness (innerRing s') = 16
        \<and> getBrightnessOuterRing s' = 255 \<and> getBrightnessInnerRing s' = 100)"
proof -
  let ?s = "setCurrentLimit 10 (setBrightnessInnerRing 100 (setPixelOuterRing 0 0xFFFFFF LEDRings_new))"
  have f: "targetOuterring ?s = (\<lambda>i. if i = 0 then 0xFFFFFF else 0)"
    "targetInnerRing ?s = (\<lambda>i. 0)"
    "brightnessOuterRing ?s = 255" "brightnessInnerRing ?s = 100" "currentLimit ?s = 10"
    "offsetOuterRing ?s = 0" "offsetInnerRing ?s = 0"
    by (auto simp add: setCurrentLimit_def setBrightnessInnerRing_def setPixelOuterRing_def
        OUTER_RING_LED_COUNT_def LEDRings_new_def fun_eq_iff)
  have h: "(0::rat) \<le> 1 \<and> (1::rat) \<le> 1 \<and> sint (offsetOuterRing ?s) \<le> 2147483466
      \<and> sint (offsetInnerRing ?s) \<le> 2147483624"
    by (simp add: f)
  note bt = brightness_throttle [of 1 ?s]
  from bt h obtain s' where d: "drawOnRings 1 ?s = Some s'" by blast
  from bt d have
    bo: "np_brightness (outerRing s') =
           (if unat (currentLimit ?s) < totalEstimate s'
            then word_of_nat (unat (brightnessOuterRing ?s) * unat (currentLimit ?s) div totalEstimate s')
            else brightnessOuterRing ?s)"
    and bi: "np_brightness (innerRing s') =
           (if unat (currentLimit ?s) < totalEstimate s'
            then word_of_nat (unat (brightnessInnerRing ?s) * unat (currentLimit ?s) div totalEstimate s')
            else brightnessInnerRing ?s)"
    and go: "getBrightnessOuterRing s' = getBrightnessOuterRing ?s"
    and gi: "getBrightnessInnerRing s' = getBrightnessInnerRing ?s"
    by blast+
  have bs: "brightnessOuterRing s' = 255" "brightnessInnerRing s' = 100"
    using go gi by (simp_all add: getBrightnessOuterRing_def getBrightnessInnerRing_def f)
  note r = drawOnRings_result [OF d]
  have co: "\<forall>i<91. currentOuterRing s' i = (if i = 0 then 0xFFFFFF else 0)"
  proof (intro allI impI)
    fix i :: nat assume "i < 91"
    with r have "interpolateColor24bit (currentOuterRing ?s i) (targetOuterring ?s i) 1
        = Some (currentOuterRing s' i)" by blast
    then have "currentOuterRing s' i = take_bit 24 (targetOuterring ?s i)"
      by (simp add: interpolateColor24bit_one)
    then show "currentOuterRing s' i = (if i = 0 then 0xFFFFFF else 0)" by (simp add: f)
  qed
  have ci: "\<forall>i<12. currentInnerRing s' i = 0"
  proof (intro allI impI)
    fix i :: nat assume "i < 12"
    with r have "interpolateColor24bit (currentInnerRing ?s i) (targetInnerRing ?s i) 1
        = Some (currentInnerRing s' i)" by blast
    then have "currentInnerRing s' i = take_bit 24 (targetInnerRing ?s i)"
      by (simp add: interpolateColor24bit_one)
    then show "currentInnerRing s' i = 0" by (simp add: f)
  qed
  have "(\<Sum>i<91. unat (calcEstimatedLEDCurrent (currentOuterRing s' i) 255))
      = (\<Sum>i<(91::nat). if i = 0 then 60 else (0::nat))"
    by (rule sum.cong) (auto simp add: co current_of_white current_of_black)
  also have "\<dots> = 60" by (simp add: sum.delta)
  finally have so: "(\<Sum>i<91. unat (calcEstimatedLEDCurrent (currentOuterRing s' i) 255)) = 60" .
  have "(\<Sum>i<12. unat (calcEstimatedLEDCurrent (currentInnerRing s' i) 100)) = (\<Sum>i<(12::nat). (0::nat))"
    by (rule sum.cong) (auto simp add: ci current_of_black)
  then have si: "(\<Sum>i<12. unat (calcEstimatedLEDCurrent (currentInnerRing s' i) 100)) = 0" by simp
  have te: "totalEstimate s' = 60"
    by (simp add: totalEstimate_def OUTER_RING_LED_COUNT_def INNER_RING_LED_COUNT_def bs so si)
  have "np_brightness (outerRing s') = 42" "np_brightness (innerRing s') = 16"
    using bo bi by (simp_all add: te f)
  then show ?thesis
    using h d te go gi
    by (intro conjI exI [of _ s'])
      (simp_all add: getBrightnessOuterRing_def getBrightnessInnerRing_def f)
qed

subsection \<open>Smooth drawing\<close>







subsection \<open>Drawing: the pixels handed to the drivers\<close>

lemma np_pixels_show [simp]: "np_pixels (np_show (np_setBrightness b np)) = np_pixels np"
  by (simp add: np_show_def np_setBrightness_def)

lemma drawOnRings_loops:
  assumes "drawOnRings f s = Some s'"
  shows "\<exists>st1 st2. for_loop_opt OUTER_RING_LED_COUNT (drawOuterPixel f) (s, 0) = Some st1
       \<and> for_loop_opt INNER_RING_LED_COUNT (drawInnerPixel f) (fst st1, 0) = Some st2
       \<and> np_pixels (outerRing s') = np_pixels (outerRing (fst st1))
       \<and> np_pixels (innerRing s') = np_pixels (innerRing (fst st2))
       \<and> currentOuterRing s' = currentOuterRing (fst st1)
       \<and> currentInnerRing s' = currentInnerRing (fst st2)
       \<and> offsetInnerRing (fst st1) = offsetInnerRing s"
proof -
  from drawOnRings_SomeD [OF assms] obtain s1 tO tI nO nI where
    dp: "drawPixels f s = Some (s1, tO, tI)"
    and s': "s' = s1\<lparr>outerRing := np_show (np_setBrightness nO (outerRing s1)),
                  innerRing := np_show (np_setBrightness nI (innerRing s1))\<rparr>"
    by blast
  from drawPixels_SomeD [OF dp] obtain st1 st2 where
    l1: "for_loop_opt OUTER_RING_LED_COUNT (drawOuterPixel f) (s, 0) = Some st1"
    and l2: "for_loop_opt INNER_RING_LED_COUNT (drawInnerPixel f) (fst st1, 0) = Some st2"
    and s1: "s1 = fst st2" by blast
  show ?thesis
    using l1 l2 drawOuter_loop_frame [OF l1] drawInner_loop_frame [OF l2]
    by (intro exI [of _ st1] exI [of _ st2]) (simp add: s' s1)
qed

lemma drawOnRings_pixels:
  assumes "drawOnRings f s = Some s'"
  shows "(\<forall>j<91. 0 \<le> 91 + int j + sint (offsetOuterRing s) \<longrightarrow>
            np_pixels (outerRing s') (nat ((int j + sint (offsetOuterRing s)) mod 91))
              = currentOuterRing s' j)
       \<and> (\<forall>j<12. 0 \<le> 12 + int j + sint (offsetInnerRing s) \<longrightarrow>
            np_pixels (innerRing s') (nat ((int j + sint (offsetInnerRing s)) mod 12))
              = currentInnerRing s' j)"
proof -
  from drawOnRings_loops [OF assms] obtain st1 st2 where
    l1: "for_loop_opt OUTER_RING_LED_COUNT (drawOuterPixel f) (s, 0) = Some st1"
    and l2: "for_loop_opt INNER_RING_LED_COUNT (drawInnerPixel f) (fst st1, 0) = Some st2"
    and e: "np_pixels (outerRing s') = np_pixels (outerRing (fst st1))"
      "np_pixels (innerRing s') = np_pixels (innerRing (fst st2))"
      "currentOuterRing s' = currentOuterRing (fst st1)"
      "currentInnerRing s' = currentInnerRing (fst st2)"
      "offsetInnerRing (fst st1) = offsetInnerRing s"
    by blast
  have l1': "for_loop_opt 91 (drawOuterPixel f) (s, 0) = Some st1"
    using l1 by (simp add: OUTER_RING_LED_COUNT_def)
  have l2': "for_loop_opt 12 (drawInnerPixel f) (fst st1, 0) = Some st2"
    using l2 by (simp add: INNER_RING_LED_COUNT_def)
  show ?thesis
    using drawOuter_loop_pixels [OF l1'] drawInner_loop_pixels [OF l2'] e by simp
qed

lemma drawOnRings_untouched:
  assumes "drawOnRings f s = Some s'"
    and "\<forall>j<91. c_rem (91 + int j + sint (offsetOuterRing s)) 91 \<noteq> int p"
  shows "np_pixels (outerRing s') p = np_pixels (outerRing s) p"
proof -
  from drawOnRings_loops [OF assms(1)] obtain st1 where
    l1: "for_loop_opt OUTER_RING_LED_COUNT (drawOuterPixel f) (s, 0) = Some st1"
    and e: "np_pixels (outerRing s') = np_pixels (outerRing (fst st1))"
    by blast
  have l1': "for_loop_opt 91 (drawOuterPixel f) (s, 0) = Some st1"
    using l1 by (simp add: OUTER_RING_LED_COUNT_def)
  show ?thesis using drawOuter_loop_untouched [OF l1' assms(2)] e by simp
qed

lemma unat_pixel_index: "i < 91 \<Longrightarrow> unat (word_of_nat i :: 16 word) = i"
  by (simp add: unat_of_nat)

text \<open>
  While the index sum \<open>length + i + offset\<close> is not negative, the slot is the
  mathematical remainder and receives the pixel's colour.
\<close>

lemma emit_outer:
  assumes "sint offOuter \<le> 2147483466" "sint offInner \<le> 2147483624"
    and "i < 91" "0 \<le> 91 + int i + sint offOuter"
  shows "\<exists>s'. drawOnRingsInstant
                (setPixelOuterRing (word_of_nat i) c (setOffsets offOuter offInner s)) = Some s'
            \<and> np_pixels (outerRing s') (nat ((int i + sint offOuter) mod 91)) = take_bit 24 c"
proof -
  let ?s = "setPixelOuterRing (word_of_nat i) c (setOffsets offOuter offInner s)"
  have u: "unat (word_of_nat i :: 16 word) = i" using assms(3) by (simp add: unat_pixel_index)
  have o: "offsetOuterRing ?s = offOuter" "offsetInnerRing ?s = offInner"
    using u assms(3) by (simp_all add: setPixelOuterRing_def setOffsets_def OUTER_RING_LED_COUNT_def)
  have t: "targetOuterring ?s i = c"
    using u assms(3) by (simp add: setPixelOuterRing_def OUTER_RING_LED_COUNT_def)
  obtain s' where d: "drawOnRings 1 ?s = Some s'"
    using drawOnRings_defined [of 1 ?s] assms(1,2) o by auto
  from drawOnRings_result [OF d] assms(3)
  have "interpolateColor24bit (currentOuterRing ?s i) (targetOuterring ?s i) 1
      = Some (currentOuterRing s' i)" by blast
  then have cur: "currentOuterRing s' i = take_bit 24 c"
    by (simp add: interpolateColor24bit_one t)
  from drawOnRings_pixels [OF d] assms(3,4) o
  have "np_pixels (outerRing s') (nat ((int i + sint offOuter) mod 91)) = currentOuterRing s' i"
    by simp
  then show ?thesis using d cur by (simp add: drawOnRingsInstant_def)
qed

lemma emit_inner:
  assumes "sint offOuter \<le> 2147483466" "sint offInner \<le> 2147483624"
    and "i < 12" "0 \<le> 12 + int i + sint offInner"
  shows "\<exists>s'. drawOnRingsInstant
                (setPixelInnerRing (word_of_nat i) c (setOffsets offOuter offInner s)) = Some s'
            \<and> np_pixels (innerRing s') (nat ((int i + sint offInner) mod 12)) = take_bit 24 c"
proof -
  let ?s = "setPixelInnerRing (word_of_nat i) c (setOffsets offOuter offInner s)"
  have u: "unat (word_of_nat i :: 16 word) = i" using assms(3) by (simp add: unat_pixel_index)
  have o: "offsetOuterRing ?s = offOuter" "offsetInnerRing ?s = offInner"
    using u assms(3) by (simp_all add: setPixelInnerRing_def setOffsets_def INNER_RING_LED_COUNT_def)
  have t: "targetInnerRing ?s i = c"
    using u assms(3) by (simp add: setPixelInnerRing_def INNER_RING_LED_COUNT_def)
  obtain s' where d: "drawOnRings 1 ?s = Some s'"
    using drawOnRings_defined [of 1 ?s] assms(1,2) o by auto
  from drawOnRings_result [OF d] assms(3)
  have "interpolateColor24bit (currentInnerRing ?s i) (targetInnerRing ?s i) 1
      = Some (currentInnerRing s' i)" by blast
  then have cur: "currentInnerRing s' i = take_bit 24 c"
    by (simp add: interpolateColor24bit_one t)
  from drawOnRings_pixels [OF d] assms(3,4) o
  have "np_pixels (innerRing s') (nat ((int i + sint offInner) mod 12)) = currentInnerRing s' i"
    by simp
  then show ?thesis using d cur by (simp add: drawOnRingsInstant_def)
qed

text \<open>
  C7 fails on the code for an offset below \<open>- (length + i)\<close>: adding the ring length once
  does not make the index sum non-negative, \<open>%\<close> keeps its sign, and the driver ignores
  the slot. With the stored offset -100, logical pixel 0 of the outer ring has the index
  sum -9 and the slot argument 65527; after \<open>setPixelOuterRing(0, 0xFF)\<close> and an instant
  draw the current buffer holds the colour, but slot \<open>(0 - 100) mod 91 = 82\<close> of the
  driver still holds black.
\<close>

theorem offset_emission_negative:
  "correctedPixel OUTER_RING_LED_COUNT 0 (- 100) = Some (- 9)
   \<and> unat (word_of_int (- 9) :: 16 word) = 65527
   \<and> nat ((int 0 + sint (- 100 :: 32 word)) mod 91) = 82
   \<and> (\<exists>s'. drawOnRingsInstant (setPixelOuterRing 0 0xFF (setOffsets (- 100) 0 LEDRings_new)) = Some s'
        \<and> currentOuterRing s' 0 = 0xFF
        \<and> np_pixels (outerRing s') 82 = 0)"
proof (intro conjI)
  show "correctedPixel OUTER_RING_LED_COUNT 0 (- 100) = Some (- 9)"
    by (simp add: correctedPixel_def OUTER_RING_LED_COUNT_def c_rem_def Let_def)
  show "unat (word_of_int (- 9) :: 16 word) = 65527" by simp
  show "nat ((int 0 + sint (- 100 :: 32 word)) mod 91) = 82" by simp
  let ?s = "setPixelOuterRing 0 0xFF (setOffsets (- 100) 0 LEDRings_new)"
  have o: "sint (offsetOuterRing ?s) = - 100" "sint (offsetInnerRing ?s) = 0"
    by (simp_all add: setPixelOuterRing_def setOffsets_def OUTER_RING_LED_COUNT_def)
  have p: "np_pixels (outerRing ?s) 82 = 0"
    by (simp add: setPixelOuterRing_def setOffsets_def OUTER_RING_LED_COUNT_def LEDRings_new_def)
  have t: "targetOuterring ?s 0 = 0xFF"
    by (simp add: setPixelOuterRing_def OUTER_RING_LED_COUNT_def)
  obtain s' where d: "drawOnRings 1 ?s = Some s'"
    using drawOnRings_defined [of 1 ?s] o by auto
  have "\<forall>j<91. c_rem (91 + int j + sint (offsetOuterRing ?s)) 91 \<noteq> int 82"
  proof (intro allI impI)
    fix j :: nat assume j: "j < 91"
    show "c_rem (91 + int j + sint (offsetOuterRing ?s)) 91 \<noteq> int 82"
    proof (cases "9 \<le> j")
      case True
      then have "c_rem (int j - 9) 91 = (int j - 9) mod 91" by (simp add: c_rem_nonneg)
      also have "\<dots> = int j - 9" using True j by simp
      finally show ?thesis using j by (simp add: o)
    next
      case False
      then have "c_rem (int j - 9) 91 \<le> 0" using c_rem_neg [of "int j - 9" 91] by simp
      then show ?thesis by (simp add: o)
    qed
  qed
  from drawOnRings_untouched [OF d this] p
  have px: "np_pixels (outerRing s') 82 = 0" by simp
  from drawOnRings_result [OF d]
  have "interpolateColor24bit (currentOuterRing ?s 0) (targetOuterring ?s 0) 1
      = Some (currentOuterRing s' 0)" by simp
  then have "currentOuterRing s' 0 = take_bit 24 (0xFF :: 32 word)"
    by (simp only: interpolateColor24bit_one t option.inject)
  then have cur: "currentOuterRing s' 0 = 0xFF" by simp
  show "\<exists>s'. drawOnRingsInstant ?s = Some s'
       \<and> currentOuterRing s' 0 = 0xFF \<and> np_pixels (outerRing s') 82 = 0"
    using d px cur by (simp add: drawOnRingsInstant_def)
qed

subsection \<open>The rounding error of a floating-point operation\<close>

lemma rne_lower: "q - 1 / 2 \<le> of_int (rne q)"
proof (cases "q - of_int \<lfloor>q\<rfloor> < 1 / 2")
  case True
  then have "rne q = \<lfloor>q\<rfloor>" by (simp add: rne_def Let_def)
  then show ?thesis using True by linarith
next
  case False
  have "\<lfloor>q\<rfloor> \<le> rne q" by (rule rne_ge) simp
  then have a: "(of_int \<lfloor>q\<rfloor> :: rat) \<le> of_int (rne q)" by (simp only: of_int_le_iff)
  show ?thesis
  proof (cases "1 / 2 < q - of_int \<lfloor>q\<rfloor>")
    case True
    then have "rne q = \<lfloor>q\<rfloor> + 1" by (simp add: rne_def Let_def)
    then have "(of_int (rne q) :: rat) = of_int \<lfloor>q\<rfloor> + 1" by simp
    moreover have "q < of_int \<lfloor>q\<rfloor> + 1" by linarith
    ultimately show ?thesis by linarith
  next
    case F2: False
    with False have "q - of_int \<lfloor>q\<rfloor> = 1 / 2" by linarith
    then show ?thesis using a by linarith
  qed
qed

lemma fround_abs_err:
  assumes "\<bar>x\<bar> < 2 powi (b + 1)" "emin \<le> b" "b \<le> int p - 1"
  shows "\<bar>fround p emin x - x\<bar> \<le> 1 / 2 ^ nat (int p - b)"
proof (cases "x = 0")
  case True
  then show ?thesis by (simp add: fround_def)
next
  case False
  from fround_scaled [OF False assms] obtain k where
    k: "int p - 1 - b \<le> int k" and fx: "fround p emin x = of_int (rne (x * 2 ^ k)) / 2 ^ k"
    by blast
  define y where "y = x * 2 ^ k"
  have p2: "(0::rat) < 2 ^ k" by simp
  have u: "of_int (rne y) \<le> y + 1 / 2" by (rule rne_upper)
  have l: "y - 1 / 2 \<le> of_int (rne y)" by (rule rne_lower)
  have e: "fround p emin x - x = (of_int (rne y) - y) / 2 ^ k"
    by (simp add: fx y_def diff_divide_distrib)
  have a: "\<bar>of_int (rne y) - y\<bar> \<le> 1 / 2" using u l by linarith
  have "\<bar>fround p emin x - x\<bar> = \<bar>of_int (rne y) - y\<bar> / 2 ^ k"
    by (simp only: e abs_divide) simp
  also have "\<dots> \<le> (1 / 2) / 2 ^ k"
    using a p2 by (intro divide_right_mono) simp_all
  also have "\<dots> = 1 / 2 ^ (k + 1)" by simp
  also have "\<dots> \<le> 1 / 2 ^ nat (int p - b)"
  proof -
    have "nat (int p - b) \<le> k + 1" using k by linarith
    then have "(2::rat) ^ nat (int p - b) \<le> 2 ^ (k + 1)" by (intro power_increasing) simp_all
    then show ?thesis by (simp add: frac_le del: power_Suc)
  qed
  finally show ?thesis .
qed

lemma fl32_err_1: "\<bar>x\<bar> < 1 \<Longrightarrow> \<bar>fl32 x - x\<bar> \<le> 1 / 33554432"
  unfolding fl32_def using fround_abs_err [of x "- 1" "- 126" 24] by simp

lemma fl32_err_2: "\<bar>x\<bar> < 2 \<Longrightarrow> \<bar>fl32 x - x\<bar> \<le> 1 / 16777216"
  unfolding fl32_def using fround_abs_err [of x 0 "- 126" 24] by simp

lemma fl32_err_64: "\<bar>x\<bar> < 64 \<Longrightarrow> \<bar>fl32 x - x\<bar> \<le> 1 / 524288"
  unfolding fl32_def using fround_abs_err [of x 5 "- 126" 24] by simp

lemma fl32_err_128: "\<bar>x\<bar> < 128 \<Longrightarrow> \<bar>fl32 x - x\<bar> \<le> 1 / 262144"
  unfolding fl32_def using fround_abs_err [of x 6 "- 126" 24] by simp

lemma fl64_err_2: "\<bar>x\<bar> < 2 \<Longrightarrow> \<bar>fl64 x - x\<bar> \<le> 1 / 9007199254740992"
  unfolding fl64_def using fround_abs_err [of x 0 "- 1022" 53] by simp

lemma fl32_zero: "fl32 0 = 0"
  by (simp add: fl32_def fround_def)

text \<open>91 and 60000 have no common factor: within a minute, 91 t / 60000 is an integer
  only at t = 0.\<close>

lemma seconds_remainder:
  fixes T :: int
  assumes "0 < T" "T < 60000"
  shows "1 \<le> (91 * T) mod 60000 \<and> (91 * T) mod 60000 \<le> 59999"
proof -
  have c: "coprime (60000::int) 91" by (simp add: coprime_iff_gcd_eq_1 gcd_non_0_int)
  have "(91 * T) mod 60000 \<noteq> 0"
  proof
    assume "(91 * T) mod 60000 = 0"
    then have "60000 dvd 91 * T" by (simp add: dvd_eq_mod_eq_0)
    then have "60000 dvd T" using c by (simp add: coprime_dvd_mult_right_iff)
    then have "60000 \<le> T" using assms(1) by (rule zdvd_imp_le)
    then show False using assms(2) by simp
  qed
  moreover have "0 \<le> (91 * T) mod 60000" "(91 * T) mod 60000 < 60000" by simp_all
  ultimately show ?thesis by linarith
qed

subsection \<open>The minute face\<close>

lemma fl32_unit: "0 \<le> x \<Longrightarrow> x \<le> 1 \<Longrightarrow> 0 \<le> fl32 x \<and> fl32 x \<le> 1"
  using fl32_ge_int [of x 0] fl32_le_int [of x 1] by simp

lemma fl64_unit: "0 \<le> x \<Longrightarrow> x \<le> 1 \<Longrightarrow> 0 \<le> fl64 x \<and> fl64 x \<le> 1"
  unfolding fl64_def
  using fround_ge_int [of x 53 "- 1022" 0] fround_le_int [of x 53 "- 1022" 1] by simp

text \<open>
  A non-negative \<open>float\<close> below 1000 converts to \<open>int\<close> as its floor; the difference to
  that floor, computed in \<open>float\<close>, is between 0 and 1 and the two add up to the value
  but for one rounding.
\<close>

lemma float_fraction:
  assumes "0 \<le> x" "x \<le> 1000"
  shows "float_to_int x = Some \<lfloor>x\<rfloor>
       \<and> 0 \<le> fl32 (x - fl32 (of_int \<lfloor>x\<rfloor>)) \<and> fl32 (x - fl32 (of_int \<lfloor>x\<rfloor>)) \<le> 1
       \<and> \<bar>of_int \<lfloor>x\<rfloor> + fl32 (x - fl32 (of_int \<lfloor>x\<rfloor>)) - x\<bar> \<le> 1 / 33554432"
proof -
  have f0: "0 \<le> \<lfloor>x\<rfloor>" using assms(1) by simp
  have f1: "\<lfloor>x\<rfloor> \<le> 1000" using assms(2) by (simp add: floor_le_iff)
  have conv: "float_to_int x = Some \<lfloor>x\<rfloor>"
    using f0 f1 assms(1) by (simp add: float_to_int_def truncate_rat_nonneg Let_def)
  have "\<bar>\<lfloor>x\<rfloor>\<bar> < 16777216" using f0 f1 by simp
  then have e: "fl32 (of_int \<lfloor>x\<rfloor>) = of_int \<lfloor>x\<rfloor>" by (rule fl32_of_int)
  define y where "y = x - of_int \<lfloor>x\<rfloor>"
  have y: "0 \<le> y" "y < 1" unfolding y_def by linarith+
  then have u: "0 \<le> fl32 y \<and> fl32 y \<le> 1" by (intro fl32_unit) simp_all
  have "\<bar>y\<bar> < 1" using y by simp
  then have "\<bar>fl32 y - y\<bar> \<le> 1 / 33554432" by (rule fl32_err_1)
  then have "\<bar>of_int \<lfloor>x\<rfloor> + fl32 y - x\<bar> \<le> 1 / 33554432" unfolding y_def by linarith
  then show ?thesis using conv u unfolding y_def by (simp only: e simp_thms)
qed

lemma fl32_scale_91:
  assumes "0 \<le> x" "x \<le> 1"
  shows "0 \<le> fl32 (x * 91) \<and> fl32 (x * 91) \<le> 91
       \<and> \<bar>fl32 (x * 91) - x * 91\<bar> \<le> 1 / 262144"
proof -
  have b: "0 \<le> x * 91" "x * 91 \<le> 91" using assms by simp_all
  then have "of_int 0 \<le> fl32 (x * 91)" "fl32 (x * 91) \<le> of_int 91"
    by (intro fl32_ge_int fl32_le_int; simp)+
  moreover have "\<bar>x * 91\<bar> < 128" using b by simp
  then have "\<bar>fl32 (x * 91) - x * 91\<bar> \<le> 1 / 262144" by (rule fl32_err_128)
  ultimately show ?thesis by simp
qed

text \<open>
  The four locals of \<open>showMinutes\<close>, for a minute from 0 to 59 and less than a minute
  elapsed: they are defined; the seconds pixel is exactly \<open>\<lfloor>91 t / 60000\<rfloor>\<close>; pixel plus
  fraction is the position \<open>91 t / 60000\<close> of the seconds, and \<open>91 (m + t / 60000) / 60\<close>
  of the minutes, up to the rounding of the \<open>float\<close> operations.
\<close>

lemma calcProgress_positions:
  assumes "uint minutes \<le> 59" "uint t < 60000"
  shows "\<exists>p. calcProgress minutes t = Some p
       \<and> 0 \<le> pixelProgressSeconds p \<and> pixelProgressSeconds p \<le> 1
       \<and> 0 \<le> pixelProgressMinutes p \<and> pixelProgressMinutes p \<le> 1
       \<and> activePixelSeconds p = 91 * uint t div 60000
       \<and> \<bar>of_int (activePixelSeconds p) + pixelProgressSeconds p
            - 91 * of_int (uint t) / 60000\<bar> \<le> 1 / 100000
       \<and> \<bar>of_int (activePixelMinutes p) + pixelProgressMinutes p
            - 91 * (of_int (uint minutes) + of_int (uint t) / 60000) / 60\<bar> \<le> 1 / 50000"
proof -
  define T where "T = uint t"
  define Mi where "Mi = uint minutes"
  define ps where "ps = fl32 (fl32 (of_int T) / of_int MILLIS_PER_MINUTE)"
  define sp where "sp = fl32 (ps * of_nat OUTER_RING_LED_COUNT)"
  define mc where "mc = fl32 (of_int Mi + ps)"
  define pm where "pm = fl32 (fl64 (mc / 60))"
  define mp where "mp = fl32 (pm * of_nat OUTER_RING_LED_COUNT)"
  define X :: rat where "X = of_int T / 60000"
  define Mr :: rat where "Mr = of_int Mi"
  have T0: "0 \<le> T" and T1: "T < 60000" using assms(2) by (simp_all add: T_def)
  have M0: "0 \<le> Mi" and M1: "Mi \<le> 59" using assms(1) by (simp_all add: Mi_def)
  have n91: "(of_nat OUTER_RING_LED_COUNT :: rat) = 91" by (simp add: OUTER_RING_LED_COUNT_def)
  \<comment> \<open>the seconds\<close>
  have "\<bar>T\<bar> < 16777216" using T0 T1 by linarith
  then have ft: "fl32 (of_int T) = of_int T" by (rule fl32_of_int)
  have psX: "ps = fl32 X" by (simp add: ps_def ft MILLIS_PER_MINUTE_def X_def)
  have Tr0: "(0::rat) \<le> of_int T" using T0 by (simp only: of_int_0_le_iff)
  have "(of_int T :: rat) \<le> of_int 59999" using T1 by (simp only: of_int_le_iff)
  then have Tr1: "(of_int T :: rat) \<le> 59999" by simp
  have X0: "0 \<le> X" and X1: "X < 1" using Tr0 Tr1 by (simp_all add: X_def)
  have ps01: "0 \<le> ps" "ps \<le> 1" using fl32_unit [of X] X0 X1 by (simp_all add: psX)
  have "\<bar>X\<bar> < 1" using X0 X1 by simp
  then have "\<bar>ps - X\<bar> \<le> 1 / 33554432" unfolding psX by (rule fl32_err_1)
  then have e1: "X - 1 / 33554432 \<le> ps" "ps \<le> X + 1 / 33554432" by linarith+
  have spd: "sp = fl32 (ps * 91)" by (simp add: sp_def n91)
  note s91 = fl32_scale_91 [OF ps01]
  have sp0: "0 \<le> sp" "sp \<le> 1000" using s91 by (simp_all add: spd)
  have e2: "ps * 91 - 1 / 262144 \<le> sp" "sp \<le> ps * 91 + 1 / 262144"
    using s91 unfolding spd by linarith+
  have spX: "91 * X - 1 / 152520 \<le> sp" "sp \<le> 91 * X + 1 / 152520"
    using e1 e2 by linarith+
  note fs = float_fraction [OF sp0]
  define pps where "pps = fl32 (sp - fl32 (of_int \<lfloor>sp\<rfloor>))"
  have pps01: "0 \<le> pps" "pps \<le> 1" using fs by (simp_all add: pps_def)
  have "\<bar>of_int \<lfloor>sp\<rfloor> + pps - sp\<bar> \<le> 1 / 33554432" using fs by (simp add: pps_def)
  then have secpos: "\<bar>of_int \<lfloor>sp\<rfloor> + pps - 91 * X\<bar> \<le> 1 / 100000"
    using spX by linarith
  have aps: "\<lfloor>sp\<rfloor> = 91 * T div 60000"
  proof (cases "T = 0")
    case True
    then have "X = 0" by (simp add: X_def)
    then have "ps = 0" by (simp add: psX fl32_zero)
    then have "sp = 0" by (simp add: spd fl32_zero)
    then show ?thesis using True by simp
  next
    case False
    then have "0 < T" using T0 by simp
    from seconds_remainder [OF this T1]
    have r: "1 \<le> (91 * T) mod 60000" "(91 * T) mod 60000 \<le> 59999" by simp_all
    define k where "k = 91 * T div 60000"
    define r where "r = (91 * T) mod 60000"
    have "91 * T = k * 60000 + r" by (simp add: k_def r_def)
    then have "(of_int (91 * T) :: rat) = of_int (k * 60000 + r)" by (simp only:)
    then have eq: "91 * (of_int T :: rat) = of_int k * 60000 + of_int r" by simp
    have "(of_int 1 :: rat) \<le> of_int r" "(of_int r :: rat) \<le> of_int 59999"
      using r unfolding r_def [symmetric] by (simp_all only: of_int_le_iff)
    then have rr: "(1::rat) \<le> of_int r" "(of_int r :: rat) \<le> 59999" by simp_all
    have "60000 * (91 * X) = 91 * (of_int T :: rat)" by (simp add: X_def)
    then have "60000 * (91 * X) = of_int k * 60000 + of_int r" using eq by simp
    then have "of_int k + 1 / 60000 \<le> 91 * X" "91 * X \<le> of_int k + 59999 / 60000"
      using rr by linarith+
    then have "of_int k \<le> sp" "sp < of_int k + 1" using spX by linarith+
    then have "\<lfloor>sp\<rfloor> = k" by (simp add: floor_eq_iff)
    then show ?thesis by (simp only: k_def)
  qed
  \<comment> \<open>the minutes\<close>
  have Mr0: "0 \<le> Mr" using M0 by (simp add: Mr_def)
  have "(of_int Mi :: rat) \<le> of_int 59" using M1 by (simp only: of_int_le_iff)
  then have Mr1: "Mr \<le> 59" by (simp add: Mr_def)
  have mcd: "mc = fl32 (Mr + ps)" by (simp add: mc_def Mr_def)
  have s0: "of_int 0 \<le> Mr + ps" using Mr0 ps01 by simp
  have s1: "Mr + ps \<le> of_int 60" using Mr1 ps01 by simp
  have sa: "\<bar>Mr + ps\<bar> < 16777216" using s0 s1 by simp
  have mc01: "0 \<le> mc" "mc \<le> 60"
    using fl32_ge_int [OF sa s0] fl32_le_int [OF sa s1] by (simp_all add: mcd)
  have "\<bar>Mr + ps\<bar> < 64" using s0 s1 by simp
  then have "\<bar>mc - (Mr + ps)\<bar> \<le> 1 / 524288" unfolding mcd by (rule fl32_err_64)
  then have e3: "Mr + ps - 1 / 524288 \<le> mc" "mc \<le> Mr + ps + 1 / 524288" by linarith+
  define q where "q = mc / 60"
  have q60: "60 * q = mc" by (simp add: q_def)
  have q01: "0 \<le> q" "q \<le> 1" using mc01 by (simp_all add: q_def)
  define d where "d = fl64 q"
  have d01: "0 \<le> d" "d \<le> 1" using fl64_unit [OF q01] by (simp_all add: d_def)
  have "\<bar>q\<bar> < 2" using q01 by simp
  then have "\<bar>d - q\<bar> \<le> 1 / 9007199254740992" unfolding d_def by (rule fl64_err_2)
  then have e4: "q - 1 / 9007199254740992 \<le> d" "d \<le> q + 1 / 9007199254740992" by linarith+
  have pmd: "pm = fl32 d" by (simp add: pm_def d_def q_def)
  have pm01: "0 \<le> pm" "pm \<le> 1" using fl32_unit [OF d01] by (simp_all add: pmd)
  have "\<bar>d\<bar> < 2" using d01 by simp
  then have "\<bar>pm - d\<bar> \<le> 1 / 16777216" unfolding pmd by (rule fl32_err_2)
  then have e5: "d - 1 / 16777216 \<le> pm" "pm \<le> d + 1 / 16777216" by linarith+
  have mpd: "mp = fl32 (pm * 91)" by (simp add: mp_def n91)
  note m91 = fl32_scale_91 [OF pm01]
  have mp0: "0 \<le> mp" "mp \<le> 1000" using m91 by (simp_all add: mpd)
  have e6: "pm * 91 - 1 / 262144 \<le> mp" "mp \<le> pm * 91 + 1 / 262144"
    using m91 unfolding mpd by linarith+
  define I :: rat where "I = 91 * (Mr + X) / 60"
  have I60: "60 * I = 91 * Mr + 91 * X" by (simp add: I_def)
  have mcX: "Mr + X - 65 / 33554432 \<le> mc" "mc \<le> Mr + X + 65 / 33554432"
    using e1 e3 by linarith+
  have pmq: "q - 1 / 16777215 \<le> pm" "pm \<le> q + 1 / 16777215"
    using e4 e5 by linarith+
  have mpq: "91 * q - 1 / 106000 \<le> mp" "mp \<le> 91 * q + 1 / 106000"
    using pmq e6 by linarith+
  have mpI: "I - 1 / 80000 \<le> mp" "mp \<le> I + 1 / 80000"
    using mpq q60 mcX I60 by linarith+
  note fm = float_fraction [OF mp0]
  define ppm where "ppm = fl32 (mp - fl32 (of_int \<lfloor>mp\<rfloor>))"
  have ppm01: "0 \<le> ppm" "ppm \<le> 1" using fm by (simp_all add: ppm_def)
  have "\<bar>of_int \<lfloor>mp\<rfloor> + ppm - mp\<bar> \<le> 1 / 33554432" using fm by (simp add: ppm_def)
  then have minpos: "\<bar>of_int \<lfloor>mp\<rfloor> + ppm - I\<bar> \<le> 1 / 50000"
    using mpI by linarith
  \<comment> \<open>the result\<close>
  have "calcProgress minutes t =
      Some \<lparr>activePixelSeconds = \<lfloor>sp\<rfloor>, pixelProgressSeconds = pps,
            activePixelMinutes = \<lfloor>mp\<rfloor>, pixelProgressMinutes = ppm\<rparr>"
    unfolding calcProgress_def Let_def pps_def ppm_def mp_def pm_def mc_def sp_def ps_def
      T_def Mi_def
    using fs [THEN conjunct1] fm [THEN conjunct1]
    unfolding mp_def pm_def mc_def sp_def ps_def T_def Mi_def
    by (simp only: option.case)
  moreover have "91 * (of_int (uint t) :: rat) / 60000 = 91 * X"
    by (simp add: X_def T_def)
  moreover have "91 * ((of_int (uint minutes) :: rat) + of_int (uint t) / 60000) / 60 = I"
    by (simp add: I_def X_def Mr_def T_def Mi_def)
  ultimately show ?thesis
    using pps01 ppm01 aps secpos minpos by (simp add: T_def)
qed

text \<open>The colour that the pixel loop of \<open>showMinutes\<close> gives to logical pixel \<open>i\<close>.\<close>

lemma showMinutesPixel_SomeD:
  assumes "showMinutesPixel p cM cS i s = Some s'"
  shows "\<exists>color.
       (if int i = activePixelSeconds p - 1
          then interpolateColor24bit (Color24bit 0 0 0) cS (fl32 (1 - pixelProgressSeconds p))
        else if int i = activePixelSeconds p
          then interpolateColor24bit (Color24bit 0 0 0) cS (pixelProgressSeconds p)
        else if int i < activePixelMinutes p then Some cM
        else if int i = activePixelMinutes p
          then interpolateColor24bit (Color24bit 0 0 0) cM (pixelProgressMinutes p)
        else Some (Color24bit 0 0 0)) = Some color
     \<and> s' = setPixelOuterRing (word_of_nat i) color s"
  using assms unfolding showMinutesPixel_def Let_def
  by (auto split: if_splits option.splits)

lemma showMinutesPixel_defined:
  assumes "0 \<le> pixelProgressSeconds p" "pixelProgressSeconds p \<le> 1"
    "0 \<le> pixelProgressMinutes p" "pixelProgressMinutes p \<le> 1"
  shows "\<exists>s'. showMinutesPixel p cM cS i s = Some s'"
proof -
  have "0 \<le> 1 - pixelProgressSeconds p" "1 - pixelProgressSeconds p \<le> 1"
    using assms(1,2) by simp_all
  then have "0 \<le> fl32 (1 - pixelProgressSeconds p) \<and> fl32 (1 - pixelProgressSeconds p) \<le> 1"
    by (rule fl32_unit)
  then obtain c1 where
    "interpolateColor24bit (Color24bit 0 0 0) cS (fl32 (1 - pixelProgressSeconds p)) = Some c1"
    using interpolateColor24bit_defined by blast
  moreover obtain c2 where
    "interpolateColor24bit (Color24bit 0 0 0) cS (pixelProgressSeconds p) = Some c2"
    using interpolateColor24bit_defined [OF assms(1,2)] by blast
  moreover obtain c3 where
    "interpolateColor24bit (Color24bit 0 0 0) cM (pixelProgressMinutes p) = Some c3"
    using interpolateColor24bit_defined [OF assms(3,4)] by blast
  ultimately show ?thesis by (simp add: showMinutesPixel_def Let_def)
qed

lemma showMinutes_loop:
  assumes "for_loop_opt n (showMinutesPixel p cM cS) s0 = Some s'" "n \<le> 91"
  shows "\<forall>i<n. Some (targetOuterring s' i) =
       (if int i = activePixelSeconds p - 1
          then interpolateColor24bit (Color24bit 0 0 0) cS (fl32 (1 - pixelProgressSeconds p))
        else if int i = activePixelSeconds p
          then interpolateColor24bit (Color24bit 0 0 0) cS (pixelProgressSeconds p)
        else if int i < activePixelMinutes p then Some cM
        else if int i = activePixelMinutes p
          then interpolateColor24bit (Color24bit 0 0 0) cM (pixelProgressMinutes p)
        else Some (Color24bit 0 0 0))"
  using assms(1)
proof (rule for_loop_opt_partial [where I = "\<lambda>k s'. \<forall>i<k. Some (targetOuterring s' i) =
       (if int i = activePixelSeconds p - 1
          then interpolateColor24bit (Color24bit 0 0 0) cS (fl32 (1 - pixelProgressSeconds p))
        else if int i = activePixelSeconds p
          then interpolateColor24bit (Color24bit 0 0 0) cS (pixelProgressSeconds p)
        else if int i < activePixelMinutes p then Some cM
        else if int i = activePixelMinutes p
          then interpolateColor24bit (Color24bit 0 0 0) cM (pixelProgressMinutes p)
        else Some (Color24bit 0 0 0))"])
  show "\<forall>i<0. Some (targetOuterring s0 i) =
       (if int i = activePixelSeconds p - 1
          then interpolateColor24bit (Color24bit 0 0 0) cS (fl32 (1 - pixelProgressSeconds p))
        else if int i = activePixelSeconds p
          then interpolateColor24bit (Color24bit 0 0 0) cS (pixelProgressSeconds p)
        else if int i < activePixelMinutes p then Some cM
        else if int i = activePixelMinutes p
          then interpolateColor24bit (Color24bit 0 0 0) cM (pixelProgressMinutes p)
        else Some (Color24bit 0 0 0))"
    by simp
next
  fix k t t'
  assume k: "k < n"
    and inv: "\<forall>i<k. Some (targetOuterring t i) =
       (if int i = activePixelSeconds p - 1
          then interpolateColor24bit (Color24bit 0 0 0) cS (fl32 (1 - pixelProgressSeconds p))
        else if int i = activePixelSeconds p
          then interpolateColor24bit (Color24bit 0 0 0) cS (pixelProgressSeconds p)
        else if int i < activePixelMinutes p then Some cM
        else if int i = activePixelMinutes p
          then interpolateColor24bit (Color24bit 0 0 0) cM (pixelProgressMinutes p)
        else Some (Color24bit 0 0 0))"
    and step: "showMinutesPixel p cM cS k t = Some t'"
  from showMinutesPixel_SomeD [OF step] obtain color where
    col: "(if int k = activePixelSeconds p - 1
          then interpolateColor24bit (Color24bit 0 0 0) cS (fl32 (1 - pixelProgressSeconds p))
        else if int k = activePixelSeconds p
          then interpolateColor24bit (Color24bit 0 0 0) cS (pixelProgressSeconds p)
        else if int k < activePixelMinutes p then Some cM
        else if int k = activePixelMinutes p
          then interpolateColor24bit (Color24bit 0 0 0) cM (pixelProgressMinutes p)
        else Some (Color24bit 0 0 0)) = Some color"
    and t': "t' = setPixelOuterRing (word_of_nat k) color t"
    by blast
  have "k < 91" using k assms(2) by simp
  then have u: "unat (word_of_nat k :: 16 word) = k" by (rule unat_pixel_index)
  have tt: "targetOuterring t' = (targetOuterring t)(k := color)"
    using u \<open>k < 91\<close> by (simp add: t' setPixelOuterRing_def OUTER_RING_LED_COUNT_def)
  show "\<forall>i<Suc k. Some (targetOuterring t' i) =
       (if int i = activePixelSeconds p - 1
          then interpolateColor24bit (Color24bit 0 0 0) cS (fl32 (1 - pixelProgressSeconds p))
        else if int i = activePixelSeconds p
          then interpolateColor24bit (Color24bit 0 0 0) cS (pixelProgressSeconds p)
        else if int i < activePixelMinutes p then Some cM
        else if int i = activePixelMinutes p
          then interpolateColor24bit (Color24bit 0 0 0) cM (pixelProgressMinutes p)
        else Some (Color24bit 0 0 0))"
  proof (intro allI impI)
    fix i assume "i < Suc k"
    then consider "i = k" | "i < k" by linarith
    then show "Some (targetOuterring t' i) =
       (if int i = activePixelSeconds p - 1
          then interpolateColor24bit (Color24bit 0 0 0) cS (fl32 (1 - pixelProgressSeconds p))
        else if int i = activePixelSeconds p
          then interpolateColor24bit (Color24bit 0 0 0) cS (pixelProgressSeconds p)
        else if int i < activePixelMinutes p then Some cM
        else if int i = activePixelMinutes p
          then interpolateColor24bit (Color24bit 0 0 0) cM (pixelProgressMinutes p)
        else Some (Color24bit 0 0 0))"
    proof cases
      case 1
      then show ?thesis using col by (simp only: tt fun_upd_same)
    next
      case 2
      then have "targetOuterring t' i = targetOuterring t i" by (simp add: tt)
      then show ?thesis using inv 2 by (simp only:)
    qed
  qed
qed

lemma showMinutes_loop_defined:
  assumes "0 \<le> pixelProgressSeconds p" "pixelProgressSeconds p \<le> 1"
    "0 \<le> pixelProgressMinutes p" "pixelProgressMinutes p \<le> 1"
  shows "\<exists>s'. for_loop_opt n (showMinutesPixel p cM cS) s0 = Some s'"
proof -
  have "\<exists>s'. for_loop_opt n (showMinutesPixel p cM cS) s0 = Some s' \<and> True"
  proof (rule for_loop_opt_total [where I = "\<lambda>k (s :: LEDRings). True"])
    show True ..
  next
    fix k and t :: LEDRings
    show "\<exists>t'. showMinutesPixel p cM cS k t = Some t' \<and> True"
      using showMinutesPixel_defined [OF assms] by simp
  qed
  then show ?thesis by simp
qed

text \<open>
  C3: for a minute from 0 to 59 and less than a minute elapsed since the last change,
  \<open>showMinutes\<close> is defined; its seconds pixel \<open>activePixelSeconds\<close> is \<open>\<lfloor>91 t / 60000\<rfloor>\<close>
  for the elapsed milliseconds \<open>t\<close>, pixel plus fraction is the position \<open>91 t / 60000\<close>
  of the seconds and \<open>91 (minute + t / 60000) / 60\<close> of the minutes (up to the rounding
  of the \<open>float\<close> operations); and it leaves in the outer target buffer, at each logical
  index \<open>i\<close> of the 91: the blend of black and \<open>colorSeconds\<close> by
  \<open>1 - pixelProgressSeconds\<close> at \<open>activePixelSeconds - 1\<close>, by \<open>pixelProgressSeconds\<close> at
  \<open>activePixelSeconds\<close>; elsewhere \<open>colorMinutes\<close> below \<open>activePixelMinutes\<close>, the blend of
  black and \<open>colorMinutes\<close> by \<open>pixelProgressMinutes\<close> at \<open>activePixelMinutes\<close>, and black
  beyond.
\<close>

theorem showMinutes_target:
  assumes "unat minutes \<le> 59"
    and "unat (now2 - (if minutes \<noteq> lastMinutes st then now1 else timeOfLastMinuteChange st)) < 60000"
  shows "\<exists>p st'.
       calcProgress minutes
         (now2 - (if minutes \<noteq> lastMinutes st then now1 else timeOfLastMinuteChange st)) = Some p
     \<and> showMinutes minutes colorMinutes colorSeconds now1 now2 st = Some st'
     \<and> activePixelSeconds p =
         91 * uint (now2 - (if minutes \<noteq> lastMinutes st then now1 else timeOfLastMinuteChange st))
           div 60000
     \<and> 0 \<le> pixelProgressSeconds p \<and> pixelProgressSeconds p \<le> 1
     \<and> \<bar>of_int (activePixelSeconds p) + pixelProgressSeconds p
          - 91 * of_int (uint (now2 - (if minutes \<noteq> lastMinutes st then now1
                                        else timeOfLastMinuteChange st))) / 60000\<bar> \<le> 1 / 100000
     \<and> 0 \<le> pixelProgressMinutes p \<and> pixelProgressMinutes p \<le> 1
     \<and> \<bar>of_int (activePixelMinutes p) + pixelProgressMinutes p
          - 91 * (of_int (uint minutes)
                  + of_int (uint (now2 - (if minutes \<noteq> lastMinutes st then now1
                                           else timeOfLastMinuteChange st))) / 60000) / 60\<bar>
         \<le> 1 / 50000
     \<and> (\<forall>i<91. Some (targetOuterring (ledrings st') i) =
         (if int i = activePixelSeconds p - 1
            then interpolateColor24bit (Color24bit 0 0 0) colorSeconds
                   (fl32 (1 - pixelProgressSeconds p))
          else if int i = activePixelSeconds p
            then interpolateColor24bit (Color24bit 0 0 0) colorSeconds (pixelProgressSeconds p)
          else if int i < activePixelMinutes p then Some colorMinutes
          else if int i = activePixelMinutes p
            then interpolateColor24bit (Color24bit 0 0 0) colorMinutes (pixelProgressMinutes p)
          else Some (Color24bit 0 0 0)))"
proof -
  let ?t = "now2 - (if minutes \<noteq> lastMinutes st then now1 else timeOfLastMinuteChange st)"
  let ?st1 = "if minutes \<noteq> lastMinutes st
              then st\<lparr>timeOfLastMinuteChange := now1, lastMinutes := minutes\<rparr> else st"
  have tt: "now2 - timeOfLastMinuteChange ?st1 = ?t" by simp
  have "uint minutes \<le> 59" "uint ?t < 60000"
    using assms by (simp_all only: uint_nat)
  from calcProgress_positions [OF this] obtain p where
    p: "calcProgress minutes ?t = Some p"
    and b: "0 \<le> pixelProgressSeconds p" "pixelProgressSeconds p \<le> 1"
      "0 \<le> pixelProgressMinutes p" "pixelProgressMinutes p \<le> 1"
    and pos: "activePixelSeconds p = 91 * uint ?t div 60000"
      "\<bar>of_int (activePixelSeconds p) + pixelProgressSeconds p
          - 91 * of_int (uint ?t) / 60000\<bar> \<le> 1 / 100000"
      "\<bar>of_int (activePixelMinutes p) + pixelProgressMinutes p
          - 91 * (of_int (uint minutes) + of_int (uint ?t) / 60000) / 60\<bar> \<le> 1 / 50000"
    by blast
  obtain s' where l: "for_loop_opt OUTER_RING_LED_COUNT
      (showMinutesPixel p colorMinutes colorSeconds) (flushOuterRing (ledrings ?st1)) = Some s'"
    using showMinutes_loop_defined [OF b] by blast
  have l91: "for_loop_opt 91
      (showMinutesPixel p colorMinutes colorSeconds) (flushOuterRing (ledrings ?st1)) = Some s'"
    using l by (simp add: OUTER_RING_LED_COUNT_def)
  have sm: "showMinutes minutes colorMinutes colorSeconds now1 now2 st = Some (?st1\<lparr>ledrings := s'\<rparr>)"
    unfolding showMinutes_def Let_def by (simp only: tt p l option.case)
  have lr: "ledrings (?st1\<lparr>ledrings := s'\<rparr>) = s'" by simp
  show ?thesis
    apply (intro exI [of _ p] exI [of _ "?st1\<lparr>ledrings := s'\<rparr>"] conjI)
    apply (rule p)
    apply (rule sm)
    apply (rule pos(1))
    apply (rule b(1))
    apply (rule b(2))
    apply (rule pos(2))
    apply (rule b(3))
    apply (rule b(4))
    apply (rule pos(3))
    apply (simp only: lr)
    apply (rule showMinutes_loop [OF l91 order_refl])
    done
qed

text \<open>
  Minute 30, ten seconds after it began (time of change 5000 ms, now 15000 ms): the
  seconds are at pixel 15, the minutes at pixel 45.
\<close>

lemma calcProgress_30_10s:
  "calcProgress 30 10000 =
     Some \<lparr>activePixelSeconds = 15, pixelProgressSeconds = 174763 / 1048576,
           activePixelMinutes = 45, pixelProgressMinutes = 24667 / 32768\<rparr>"
  by code_simp

lemma blend_tail_10s:
  "interpolateColor24bit (Color24bit 0 0 0) (Color24bit 200 0 200) (fl32 (1 - 174763 / 1048576))
     = Some (Color24bit 166 0 166)"
  by code_simp

lemma blend_head_10s:
  "interpolateColor24bit (Color24bit 0 0 0) (Color24bit 200 0 200) (174763 / 1048576)
     = Some (Color24bit 33 0 33)"
  by code_simp

lemma blend_minute_10s:
  "interpolateColor24bit (Color24bit 0 0 0) (Color24bit 0 200 200) (24667 / 32768)
     = Some (Color24bit 0 150 150)"
  by code_simp

theorem showMinutes_target_witness:
  "unat (30 :: 8 word) \<le> 59
   \<and> unat (15000 - (if (30 :: 8 word) \<noteq> lastMinutes clock_start then 5000
                       else timeOfLastMinuteChange clock_start) :: 32 word) < 60000
   \<and> calcProgress 30 10000 =
       Some \<lparr>activePixelSeconds = 15, pixelProgressSeconds = 174763 / 1048576,
             activePixelMinutes = 45, pixelProgressMinutes = 24667 / 32768\<rparr>
   \<and> (\<exists>st'. showMinutes 30 (Color24bit 0 200 200) (Color24bit 200 0 200) 5000 15000 clock_start
               = Some st'
        \<and> targetOuterring (ledrings st') 14 = Color24bit 166 0 166
        \<and> targetOuterring (ledrings st') 15 = Color24bit 33 0 33
        \<and> targetOuterring (ledrings st') 20 = Color24bit 0 200 200
        \<and> targetOuterring (ledrings st') 45 = Color24bit 0 150 150
        \<and> targetOuterring (ledrings st') 60 = Color24bit 0 0 0)"
proof -
  have h1: "unat (30 :: 8 word) \<le> 59" by simp
  have el: "(15000 - (if (30 :: 8 word) \<noteq> lastMinutes clock_start then 5000
                       else timeOfLastMinuteChange clock_start) :: 32 word) = 10000"
    by (simp add: clock_start_def)
  have h2: "unat (15000 - (if (30 :: 8 word) \<noteq> lastMinutes clock_start then 5000
                       else timeOfLastMinuteChange clock_start) :: 32 word) < 60000"
    by (simp only: el) simp
  from showMinutes_target [OF h1 h2, of "Color24bit 0 200 200" "Color24bit 200 0 200"]
  obtain p st' where
    p: "calcProgress 30 (15000 - (if (30 :: 8 word) \<noteq> lastMinutes clock_start then 5000
                       else timeOfLastMinuteChange clock_start)) = Some p"
    and sm: "showMinutes 30 (Color24bit 0 200 200) (Color24bit 200 0 200) 5000 15000 clock_start
               = Some st'"
    and px: "\<forall>i<91. Some (targetOuterring (ledrings st') i) =
         (if int i = activePixelSeconds p - 1
            then interpolateColor24bit (Color24bit 0 0 0) (Color24bit 200 0 200)
                   (fl32 (1 - pixelProgressSeconds p))
          else if int i = activePixelSeconds p
            then interpolateColor24bit (Color24bit 0 0 0) (Color24bit 200 0 200)
                   (pixelProgressSeconds p)
          else if int i < activePixelMinutes p then Some (Color24bit 0 200 200)
          else if int i = activePixelMinutes p
            then interpolateColor24bit (Color24bit 0 0 0) (Color24bit 0 200 200)
                   (pixelProgressMinutes p)
          else Some (Color24bit 0 0 0))"
    by blast
  from p have pv: "p = \<lparr>activePixelSeconds = 15, pixelProgressSeconds = 174763 / 1048576,
           activePixelMinutes = 45, pixelProgressMinutes = 24667 / 32768\<rparr>"
    by (simp only: el calcProgress_30_10s option.inject)
  have f: "activePixelSeconds p = 15" "pixelProgressSeconds p = 174763 / 1048576"
    "activePixelMinutes p = 45" "pixelProgressMinutes p = 24667 / 32768"
    by (simp_all add: pv)
  have "Some (targetOuterring (ledrings st') 14) = Some (Color24bit 166 0 166)"
    using px [rule_format, of 14]
    by (simp only: f blend_tail_10s blend_head_10s blend_minute_10s) simp
  moreover have "Some (targetOuterring (ledrings st') 15) = Some (Color24bit 33 0 33)"
    using px [rule_format, of 15]
    by (simp only: f blend_tail_10s blend_head_10s blend_minute_10s) simp
  moreover have "Some (targetOuterring (ledrings st') 20) = Some (Color24bit 0 200 200)"
    using px [rule_format, of 20]
    by (simp only: f blend_tail_10s blend_head_10s blend_minute_10s) simp
  moreover have "Some (targetOuterring (ledrings st') 45) = Some (Color24bit 0 150 150)"
    using px [rule_format, of 45]
    by (simp only: f blend_tail_10s blend_head_10s blend_minute_10s) simp
  moreover have "Some (targetOuterring (ledrings st') 60) = Some (Color24bit 0 0 0)"
    using px [rule_format, of 60]
    by (simp only: f blend_tail_10s blend_head_10s blend_minute_10s) simp
  ultimately show ?thesis
    using h1 h2 sm calcProgress_30_10s by (intro conjI exI [of _ st']) simp_all
qed

end
